theory Spec2Isabelle
  imports Main
begin

section \<open>The tabular data held in memory\<close>

text \<open>
  The script \<^verbatim>\<open>xata_loaddata.py\<close> reads \<^verbatim>\<open>uni_dataset.csv\<close> into a pandas DataFrame,
  cleans it, and loads it into PostgreSQL through a staging table. The DataFrame is
  modelled as it comes out of \<^verbatim>\<open>pd.read_csv\<close>: the column labels in file order and the
  data rows, one cell per column. A cell is either missing (\<open>NaN\<close>, what the parser makes
  of an empty field) or a value, written \<open>Val s\<close> where \<open>s\<close> is the text that
  \<^verbatim>\<open>astype(str)\<close> gives for it. A character of a \<open>string\<close> stands for one character of
  a Python \<^verbatim>\<open>str\<close>.
\<close>

datatype cell = NaN | Val string

record frame =
  columns :: "string list"
  rows :: "cell list list"

text \<open>
  What pandas guarantees of every DataFrame that \<^verbatim>\<open>read_csv\<close> returns: the labels are
  pairwise different (repeated header names are renamed) and every row has one cell per
  column.
\<close>

definition wf_frame :: "frame \<Rightarrow> bool" where
  "wf_frame df \<longleftrightarrow>
     distinct (columns df) \<and> list_all (\<lambda>r. length r = length (columns df)) (rows df)"

definition expected_columns :: "string list" where
  "expected_columns = [''name'', ''uni_roll'', ''branch'']"

text \<open>The position of a label among the columns (\<^verbatim>\<open>df.columns.get_loc\<close>).\<close>

fun get_loc :: "string list \<Rightarrow> string \<Rightarrow> nat" where
  "get_loc [] c = 0"
| "get_loc (x # xs) c = (if x = c then 0 else Suc (get_loc xs c))"

text \<open>
  \<^verbatim>\<open>df[c]\<close>, \<^verbatim>\<open>df[[c1, c2, ...]]\<close> and \<^verbatim>\<open>df[c] = series\<close>. The script reads and
  writes the three expected labels only, after line 29 has checked that they are all
  present, so the \<^verbatim>\<open>KeyError\<close> of an absent label is never raised.
\<close>

definition cell_of :: "frame \<Rightarrow> cell list \<Rightarrow> string \<Rightarrow> cell" where
  "cell_of df r c = r ! get_loc (columns df) c"

definition getitem :: "frame \<Rightarrow> string \<Rightarrow> cell list" where
  "getitem df c = map (\<lambda>r. cell_of df r c) (rows df)"

definition getitem_list :: "frame \<Rightarrow> string list \<Rightarrow> frame" where
  "getitem_list df cs =
     \<lparr>columns = cs, rows = map (\<lambda>r. map (\<lambda>c. cell_of df r c) cs) (rows df)\<rparr>"

definition setitem :: "frame \<Rightarrow> string \<Rightarrow> cell list \<Rightarrow> frame" where
  "setitem df c vs =
     (if c \<in> set (columns df)
      then df\<lparr>rows := map (\<lambda>(r, v). r[get_loc (columns df) c := v]) (zip (rows df) vs)\<rparr>
      else \<lparr>columns = columns df @ [c], rows = map (\<lambda>(r, v). r @ [v]) (zip (rows df) vs)\<rparr>)"

text \<open>\<^verbatim>\<open>df[mask]\<close> with a boolean mask: the rows whose mask entry is true, in order.\<close>

definition getitem_mask :: "frame \<Rightarrow> bool list \<Rightarrow> frame" where
  "getitem_mask df m = df\<lparr>rows := map fst (filter snd (zip (rows df) m))\<rparr>"

subsection \<open>Series operations of the cleaning block\<close>

abbreviation comma :: char where "comma \<equiv> CHR '',''"
abbreviation dquote :: char where "dquote \<equiv> CHR 0x22"
abbreviation newline :: char where "newline \<equiv> CHR 0x0A"
abbreviation carriage_return :: char where "carriage_return \<equiv> CHR 0x0D"
abbreviation backslash :: char where "backslash \<equiv> CHR 0x5C"

text \<open>
  \<^verbatim>\<open>Series.astype(str)\<close> applies \<^verbatim>\<open>str\<close> to every element, the missing ones included:
  \<^verbatim>\<open>str(float('nan'))\<close> is the three-letter text \<^verbatim>\<open>nan\<close> (pandas before 3.0, for which
  the script was written).
\<close>

definition py_str :: "cell \<Rightarrow> string" where
  "py_str c = (case c of NaN \<Rightarrow> ''nan'' | Val t \<Rightarrow> t)"

definition astype_str :: "cell list \<Rightarrow> cell list" where
  "astype_str s = map (\<lambda>c. Val (py_str c)) s"

text \<open>
  \<^verbatim>\<open>.str.replace(ch, '')\<close> for a one-character pattern, and \<^verbatim>\<open>.str[:n]\<close>. Both leave
  a missing element missing.
\<close>

definition str_replace :: "char \<Rightarrow> cell list \<Rightarrow> cell list" where
  "str_replace ch s = map (\<lambda>c. case c of NaN \<Rightarrow> NaN | Val t \<Rightarrow> Val (filter (\<lambda>x. x \<noteq> ch) t)) s"

definition str_slice :: "nat \<Rightarrow> cell list \<Rightarrow> cell list" where
  "str_slice n s = map (\<lambda>c. case c of NaN \<Rightarrow> NaN | Val t \<Rightarrow> Val (take n t)) s"

text \<open>\<^verbatim>\<open>df.dropna(subset=cs)\<close>: the rows with no missing cell under the labels \<open>cs\<close>.\<close>

definition dropna :: "frame \<Rightarrow> string list \<Rightarrow> frame" where
  "dropna df cs = df\<lparr>rows := filter (\<lambda>r. list_all (\<lambda>c. cell_of df r c \<noteq> NaN) cs) (rows df)\<rparr>"

text \<open>
  \<^verbatim>\<open>Series.duplicated()\<close> (\<^verbatim>\<open>keep='first'\<close>): an element is marked when an equal one
  stands before it. \<^verbatim>\<open>drop_duplicates(subset=[c], keep='first')\<close> keeps the unmarked rows.
\<close>

fun duplicated_from :: "cell list \<Rightarrow> cell list \<Rightarrow> bool list" where
  "duplicated_from seen [] = []"
| "duplicated_from seen (x # xs) = (x \<in> set seen) # duplicated_from (x # seen) xs"

definition duplicated :: "cell list \<Rightarrow> bool list" where
  "duplicated s = duplicated_from [] s"

definition drop_duplicates :: "frame \<Rightarrow> string \<Rightarrow> frame" where
  "drop_duplicates df c = getitem_mask df (map Not (duplicated (getitem df c)))"

section \<open>Serialisation with \<^verbatim>\<open>to_csv\<close>\<close>

text \<open>
  \<^verbatim>\<open>DataFrame.to_csv(..., sep=',', quoting=csv.QUOTE_MINIMAL)\<close> writes every row through
  Python's \<^verbatim>\<open>csv.writer\<close>: a field is put in double quotes (its own quotes doubled) when
  it holds the delimiter, the quote character, a line feed, a carriage return or a
  character of the line terminator, which is \<^verbatim>\<open>os.linesep\<close>, the line feed on POSIX. A
  missing cell is written as the empty text, and a row that is one empty field is written
  as two quotes.
\<close>

definition lineterminator :: string where
  "lineterminator = [newline]"

definition needs_quoting :: "string \<Rightarrow> bool" where
  "needs_quoting s =
     list_ex (\<lambda>c. c = comma \<or> c = dquote \<or> c = newline \<or> c = carriage_return
                   \<or> c \<in> set lineterminator) s"

definition csv_field :: "string \<Rightarrow> string" where
  "csv_field s =
     (if needs_quoting s
      then dquote # concat (map (\<lambda>c. if c = dquote then [dquote, dquote] else [c]) s) @ [dquote]
      else s)"

fun join :: "char \<Rightarrow> string list \<Rightarrow> string" where
  "join sep [] = []"
| "join sep [x] = x"
| "join sep (x # y # ys) = x @ sep # join sep (y # ys)"

definition csv_line :: "string list \<Rightarrow> string" where
  "csv_line fs =
     (if fs = [[]] then [dquote, dquote] else join comma (map csv_field fs)) @ lineterminator"

definition cell_text :: "cell \<Rightarrow> string" where
  "cell_text c = (case c of NaN \<Rightarrow> [] | Val t \<Rightarrow> t)"

definition to_csv :: "bool \<Rightarrow> frame \<Rightarrow> string" where
  "to_csv header df =
     (if header then csv_line (columns df) else [])
     @ concat (map (\<lambda>r. csv_line (map cell_text r)) (rows df))"

section \<open>The database\<close>

text \<open>
  Both tables have the columns \<open>(name, uni_roll, branch)\<close>; a column value may be NULL
  (\<open>None\<close>). A table that does not exist is \<open>None\<close>. The permanent table is the one the
  script's own \<^verbatim>\<open>CREATE TABLE IF NOT EXISTS\<close> makes, with \<open>uni_roll\<close> as primary key.
\<close>

type_synonym dbrow = "string option \<times> string option \<times> string option"

record database =
  students :: "dbrow list option"
  temp_students :: "dbrow list option"

definition name_of :: "dbrow \<Rightarrow> string option" where
  "name_of r = fst r"

definition key_of :: "dbrow \<Rightarrow> string option" where
  "key_of r = fst (snd r)"

definition branch_of :: "dbrow \<Rightarrow> string option" where
  "branch_of r = snd (snd r)"

text \<open>The primary key of the permanent table: no NULL key and no key twice.\<close>

definition primary_key_ok :: "dbrow list \<Rightarrow> bool" where
  "primary_key_ok t \<longleftrightarrow> distinct (map key_of t) \<and> \<not> list_ex (\<lambda>r. key_of r = None) t"

datatype stmt =
  CreateStudents | DropTempIfExists | CreateTemp | InsertOnConflict | DropTemp | SelectCount

datatype call = Connect | Execute stmt | CopyFrom string

text \<open>
  What the script cannot see of the outside world: which driver calls raise for reasons of
  the connection or the server (\<open>fails\<close>), and how the server decodes a COPY text that
  holds a backslash or a carriage return (\<open>copy_escaped\<close>: the escape sequences and the
  newline style are the server's business; \<open>None\<close> is an error).
\<close>

record env =
  fails :: "call \<Rightarrow> bool"
  copy_escaped :: "string \<Rightarrow> dbrow list option"

subsection \<open>The statements\<close>

definition create_students :: "database \<Rightarrow> database option" where
  "create_students d =
     (case students d of None \<Rightarrow> Some (d\<lparr>students := Some []\<rparr>) | Some t \<Rightarrow> Some d)"

definition drop_temp_if_exists :: "database \<Rightarrow> database option" where
  "drop_temp_if_exists d = Some (d\<lparr>temp_students := None\<rparr>)"

definition create_temp :: "database \<Rightarrow> database option" where
  "create_temp d =
     (case temp_students d of None \<Rightarrow> Some (d\<lparr>temp_students := Some []\<rparr>) | Some t \<Rightarrow> None)"

definition drop_temp :: "database \<Rightarrow> database option" where
  "drop_temp d =
     (case temp_students d of None \<Rightarrow> None | Some t \<Rightarrow> Some (d\<lparr>temp_students := None\<rparr>))"

text \<open>
  \<^verbatim>\<open>INSERT INTO students ... SELECT ... FROM temp_students ON CONFLICT (uni_roll) DO UPDATE
  SET name = EXCLUDED.name, branch = EXCLUDED.branch\<close>. A staged row whose key is in the
  table overwrites the name and the branch of that row; another one is appended. The
  statement fails as a whole on a NULL key, and when two staged rows have the same key
  (PostgreSQL refuses to touch a row twice in one statement).
\<close>

definition upsert_row :: "dbrow list \<Rightarrow> dbrow \<Rightarrow> dbrow list" where
  "upsert_row t r =
     (if key_of r \<in> set (map key_of t)
      then map (\<lambda>x. if key_of x = key_of r then (name_of r, key_of x, branch_of r) else x) t
      else t @ [r])"

definition insert_on_conflict :: "database \<Rightarrow> database option" where
  "insert_on_conflict d =
     (case students d of
        None \<Rightarrow> None
      | Some s \<Rightarrow>
          (case temp_students d of
             None \<Rightarrow> None
           | Some t \<Rightarrow>
               if list_ex (\<lambda>r. key_of r = None) t \<or> \<not> distinct (map key_of t) then None
               else Some (d\<lparr>students := Some (foldl upsert_row s t)\<rparr>)))"

definition select_count :: "database \<Rightarrow> nat option" where
  "select_count d = (case students d of None \<Rightarrow> None | Some s \<Rightarrow> Some (length s))"

definition sql :: "stmt \<Rightarrow> database \<Rightarrow> database option" where
  "sql s d =
     (case s of
        CreateStudents \<Rightarrow> create_students d
      | DropTempIfExists \<Rightarrow> drop_temp_if_exists d
      | CreateTemp \<Rightarrow> create_temp d
      | InsertOnConflict \<Rightarrow> insert_on_conflict d
      | DropTemp \<Rightarrow> drop_temp d
      | SelectCount \<Rightarrow> (case select_count d of None \<Rightarrow> None | Some n \<Rightarrow> Some d))"

subsection \<open>COPY ... FROM STDIN in text format\<close>

text \<open>
  \<^verbatim>\<open>cur.copy_from(buffer, 'temp_students', sep=',', columns=('name', 'uni_roll',
  'branch'))\<close> sends the buffer to \<^verbatim>\<open>COPY temp_students (name, uni_roll, branch) FROM
  STDIN\<close> in PostgreSQL's text format: one row per line, the fields of a line separated by
  the delimiter and assigned to the listed columns in that order. Quotes mean nothing in
  this format. A line with more or fewer than three fields is an error, and so is a value
  longer than its \<^verbatim>\<open>VARCHAR(n)\<close> unless the excess is spaces only, which are cut. A text
  with a NUL character is refused. An error leaves the table as it was.
\<close>

fun split_on :: "char \<Rightarrow> string \<Rightarrow> string list" where
  "split_on ch [] = [[]]"
| "split_on ch (x # xs) =
     (if x = ch then [] # split_on ch xs
      else (case split_on ch xs of [] \<Rightarrow> [[x]] | y # ys \<Rightarrow> (x # y) # ys))"

definition copy_lines :: "string \<Rightarrow> string list" where
  "copy_lines buf = (let ls = split_on newline buf in if last ls = [] then butlast ls else ls)"

definition varchar :: "nat \<Rightarrow> string option \<Rightarrow> string option option" where
  "varchar n v =
     (case v of
        None \<Rightarrow> Some None
      | Some s \<Rightarrow>
          if length s \<le> n then Some (Some s)
          else if list_all (\<lambda>c. c = CHR '' '') (drop n s) then Some (Some (take n s))
          else None)"

definition store_row :: "dbrow \<Rightarrow> dbrow option" where
  "store_row r =
     (case varchar 255 (name_of r) of
        None \<Rightarrow> None
      | Some n \<Rightarrow>
          (case varchar 100 (key_of r) of
             None \<Rightarrow> None
           | Some k \<Rightarrow>
               (case varchar 50 (branch_of r) of None \<Rightarrow> None | Some b \<Rightarrow> Some (n, k, b))))"

fun store_rows :: "dbrow list \<Rightarrow> dbrow list option" where
  "store_rows [] = Some []"
| "store_rows (r # rs) =
     (case store_row r of
        None \<Rightarrow> None
      | Some r' \<Rightarrow> (case store_rows rs of None \<Rightarrow> None | Some rs' \<Rightarrow> Some (r' # rs')))"

definition copy_line :: "string \<Rightarrow> dbrow option" where
  "copy_line l =
     (case split_on comma l of
        [a, b, c] \<Rightarrow> Some (Some a, Some b, Some c)
      | _ \<Rightarrow> None)"

fun copy_text :: "string list \<Rightarrow> dbrow list option" where
  "copy_text [] = Some []"
| "copy_text (l # ls) =
     (case copy_line l of
        None \<Rightarrow> None
      | Some r \<Rightarrow> (case copy_text ls of None \<Rightarrow> None | Some rs \<Rightarrow> Some (r # rs)))"

definition copy_decode :: "env \<Rightarrow> string \<Rightarrow> dbrow list option" where
  "copy_decode e buf =
     (if list_ex (\<lambda>c. c = CHR 0x00) buf then None
      else if list_ex (\<lambda>c. c = backslash \<or> c = carriage_return) buf then copy_escaped e buf
      else copy_text (copy_lines buf))"

definition copy_from :: "env \<Rightarrow> string \<Rightarrow> database \<Rightarrow> database option" where
  "copy_from e buf d =
     (case temp_students d of
        None \<Rightarrow> None
      | Some t \<Rightarrow>
          (case copy_decode e buf of
             None \<Rightarrow> None
           | Some rs \<Rightarrow>
               (case store_rows rs of
                  None \<Rightarrow> None
                | Some rs' \<Rightarrow> Some (d\<lparr>temp_students := Some (t @ rs')\<rparr>))))"

section \<open>The script\<close>

text \<open>Every line the script prints, with the numbers it prints in it.\<close>

datatype msg =
  LoadingCsv | ErrorReadingCsv | Loaded nat | MissingColumns | WarnExtraColumns
| WarnDuplicates nat | FinalRowCount nat
| Connected | ConnectionFailed
| CreatingTable | TableReady | ErrorCreatingTable
| PreparingData | TempCreated | ErrorCreatingTemp
| Converting | StartingCopy | LoadedTemp nat | ErrorCopy | FailedSaved
| Moving | Transferred | ErrorTransfer
| TempCleaned | WarnDropTemp
| Verification nat | WarnExpected nat nat | WarnVerify
| ConnectionClosed | TotalTime

datatype conn_state = NotConnected | Open | Closed

text \<open>
  The state the script acts on: what it has printed, the driver calls it has made, the
  database, the connection, and the file \<^verbatim>\<open>failed_rows.csv\<close> (\<open>None\<close>: not written). An
  outcome is the exit status of the process with the state it leaves.
\<close>

record pstate =
  stdout :: "msg list"
  db_calls :: "call list"
  db :: database
  connection :: conn_state
  failed_rows_csv :: "string option"

type_synonym outcome = "nat \<times> pstate"

definition print :: "msg \<Rightarrow> pstate \<Rightarrow> pstate" where
  "print m st = st\<lparr>stdout := stdout st @ [m]\<rparr>"

definition sys_exit :: "nat \<Rightarrow> pstate \<Rightarrow> outcome + 'a" where
  "sys_exit n st = Inl (n, st)"

text \<open>\<^verbatim>\<open>cur.close(); conn.close()\<close>.\<close>

definition close_connection :: "pstate \<Rightarrow> pstate" where
  "close_connection st = st\<lparr>connection := Closed\<rparr>"

text \<open>
  \<^verbatim>\<open>cur.execute(statement)\<close> and \<^verbatim>\<open>cur.copy_from(...)\<close> under autocommit: the call is
  made; it either raises (\<open>False\<close>) and changes nothing, or it succeeds and its effect is
  committed.
\<close>

definition cur_execute :: "env \<Rightarrow> stmt \<Rightarrow> pstate \<Rightarrow> bool \<times> pstate" where
  "cur_execute e s st =
     (let st1 = st\<lparr>db_calls := db_calls st @ [Execute s]\<rparr> in
      if fails e (Execute s) then (False, st1)
      else (case sql s (db st1) of
              None \<Rightarrow> (False, st1)
            | Some d \<Rightarrow> (True, st1\<lparr>db := d\<rparr>)))"

definition cur_copy_from :: "env \<Rightarrow> string \<Rightarrow> pstate \<Rightarrow> bool \<times> pstate" where
  "cur_copy_from e buf st =
     (let st1 = st\<lparr>db_calls := db_calls st @ [CopyFrom buf]\<rparr> in
      if fails e (CopyFrom buf) then (False, st1)
      else (case copy_from e buf (db st1) of
              None \<Rightarrow> (False, st1)
            | Some d \<Rightarrow> (True, st1\<lparr>db := d\<rparr>)))"

subsection \<open>Step 1: load, validate and clean (lines 18 to 45)\<close>

text \<open>
  The input \<open>csv\<close> is what \<^verbatim>\<open>pd.read_csv\<close> makes of the file: \<open>None\<close> when it raises
  (the file is absent or malformed), the DataFrame otherwise.
\<close>

definition load_csv :: "frame option \<Rightarrow> pstate \<Rightarrow> outcome + frame \<times> pstate" where
  "load_csv csv st =
     (let st1 = print LoadingCsv st in
      case csv of
        None \<Rightarrow> sys_exit 1 (print ErrorReadingCsv st1)
      | Some df \<Rightarrow> Inr (df, print (Loaded (length (rows df))) st1))"

definition validate_columns :: "frame \<Rightarrow> pstate \<Rightarrow> outcome + frame \<times> pstate" where
  "validate_columns df st =
     (if \<not> list_all (\<lambda>col. col \<in> set (columns df)) expected_columns
      then sys_exit 1 (print MissingColumns st)
      else if length (columns df) > length expected_columns
      then Inr (getitem_list df expected_columns, print WarnExtraColumns st)
      else Inr (df, st))"

definition clean_series :: "nat \<Rightarrow> cell list \<Rightarrow> cell list" where
  "clean_series n s = str_slice n (str_replace dquote (str_replace comma (astype_str s)))"

definition clean_data :: "frame \<Rightarrow> frame" where
  "clean_data df =
     (let df1 = setitem df ''name'' (clean_series 255 (getitem df ''name''));
          df2 = setitem df1 ''uni_roll'' (clean_series 100 (getitem df1 ''uni_roll''));
          df3 = setitem df2 ''branch'' (clean_series 50 (getitem df2 ''branch''))
      in dropna df3 expected_columns)"

definition remove_duplicates :: "frame \<Rightarrow> pstate \<Rightarrow> frame \<times> pstate" where
  "remove_duplicates df st =
     (let duplicates = getitem_mask df (duplicated (getitem df ''uni_roll'')) in
      if rows duplicates \<noteq> []
      then (drop_duplicates df ''uni_roll'',
            print (WarnDuplicates (length (rows duplicates))) st)
      else (df, st))"

definition load_and_clean :: "frame option \<Rightarrow> pstate \<Rightarrow> outcome + frame \<times> pstate" where
  "load_and_clean csv st =
     (case load_csv csv st of
        Inl oc \<Rightarrow> Inl oc
      | Inr (df, st1) \<Rightarrow>
          (case validate_columns df st1 of
             Inl oc \<Rightarrow> Inl oc
           | Inr (df1, st2) \<Rightarrow>
               (let (df2, st3) = remove_duplicates (clean_data df1) st2
                in Inr (df2, print (FinalRowCount (length (rows df2))) st3))))"

subsection \<open>Steps 3 to 5: connect, create the tables, copy, merge (lines 51 to 144)\<close>

definition connect :: "env \<Rightarrow> pstate \<Rightarrow> outcome + pstate" where
  "connect e st =
     (let st1 = st\<lparr>db_calls := db_calls st @ [Connect]\<rparr> in
      if fails e Connect then sys_exit 1 (print ConnectionFailed st1)
      else Inr (print Connected (st1\<lparr>connection := Open\<rparr>)))"

definition create_table :: "env \<Rightarrow> pstate \<Rightarrow> outcome + pstate" where
  "create_table e st =
     (let (ok, st1) = cur_execute e CreateStudents (print CreatingTable st) in
      if ok then Inr (print TableReady st1)
      else sys_exit 1 (close_connection (print ErrorCreatingTable st1)))"

definition create_temp_table :: "env \<Rightarrow> pstate \<Rightarrow> outcome + pstate" where
  "create_temp_table e st =
     (let (ok1, st1) = cur_execute e DropTempIfExists (print PreparingData st) in
      if \<not> ok1 then sys_exit 1 (close_connection (print ErrorCreatingTemp st1))
      else (let (ok2, st2) = cur_execute e CreateTemp st1 in
            if ok2 then Inr (print TempCreated st2)
            else sys_exit 1 (close_connection (print ErrorCreatingTemp st2))))"

definition bulk_copy :: "env \<Rightarrow> frame \<Rightarrow> pstate \<Rightarrow> outcome + pstate" where
  "bulk_copy e df st =
     (let buffer = to_csv False df;
          (ok, st1) = cur_copy_from e buffer (print StartingCopy (print Converting st))
      in
      if ok then Inr (print (LoadedTemp (length (rows df))) st1)
      else sys_exit 1
             (close_connection
                (print FailedSaved
                   ((print ErrorCopy st1)\<lparr>failed_rows_csv := Some (to_csv True df)\<rparr>))))"

definition merge_staging :: "env \<Rightarrow> pstate \<Rightarrow> outcome + pstate" where
  "merge_staging e st =
     (let (ok, st1) = cur_execute e InsertOnConflict (print Moving st) in
      if ok then Inr (print Transferred st1)
      else sys_exit 1 (close_connection (print ErrorTransfer st1)))"

subsection \<open>Cleanup, verification and teardown (lines 147 to 170)\<close>

definition cleanup_temp :: "env \<Rightarrow> pstate \<Rightarrow> pstate" where
  "cleanup_temp e st =
     (let (ok, st1) = cur_execute e DropTemp st in
      if ok then print TempCleaned st1 else print WarnDropTemp st1)"

definition verify_count :: "env \<Rightarrow> frame \<Rightarrow> pstate \<Rightarrow> pstate" where
  "verify_count e df st =
     (let (ok, st1) = cur_execute e SelectCount st in
      case (if ok then select_count (db st1) else None) of
        None \<Rightarrow> print WarnVerify st1
      | Some count \<Rightarrow>
          (let st2 = print (Verification count) st1 in
           if count \<noteq> length (rows df) then print (WarnExpected (length (rows df)) count) st2
           else st2))"

definition finish :: "env \<Rightarrow> frame \<Rightarrow> pstate \<Rightarrow> outcome" where
  "finish e df st =
     (0, print TotalTime
           (print ConnectionClosed (close_connection (verify_count e df (cleanup_temp e st)))))"

subsection \<open>The whole run\<close>

definition initial_state :: "database \<Rightarrow> pstate" where
  "initial_state d =
     \<lparr>stdout = [], db_calls = [], db = d, connection = NotConnected, failed_rows_csv = None\<rparr>"

text \<open>
  The run in three parts. \<open>Inl\<close> is a run that has ended in \<^verbatim>\<open>sys.exit(1)\<close>; \<open>Inr\<close>
  carries the cleaned data and the state on: after the staging table is made
  (\<open>run_to_staging\<close>), and after the copy and a merge that succeeded (\<open>run_to_merge\<close>).
\<close>

definition run_to_staging :: "env \<Rightarrow> frame option \<Rightarrow> database \<Rightarrow> outcome + frame \<times> pstate" where
  "run_to_staging e csv d =
     (case load_and_clean csv (initial_state d) of
        Inl oc \<Rightarrow> Inl oc
      | Inr (df, st) \<Rightarrow>
          (case connect e st of
             Inl oc \<Rightarrow> Inl oc
           | Inr st1 \<Rightarrow>
               (case create_table e st1 of
                  Inl oc \<Rightarrow> Inl oc
                | Inr st2 \<Rightarrow>
                    (case create_temp_table e st2 of
                       Inl oc \<Rightarrow> Inl oc
                     | Inr st3 \<Rightarrow> Inr (df, st3)))))"

definition run_to_merge :: "env \<Rightarrow> frame option \<Rightarrow> database \<Rightarrow> outcome + frame \<times> pstate" where
  "run_to_merge e csv d =
     (case run_to_staging e csv d of
        Inl oc \<Rightarrow> Inl oc
      | Inr (df, st3) \<Rightarrow>
          (case bulk_copy e df st3 of
             Inl oc \<Rightarrow> Inl oc
           | Inr st4 \<Rightarrow>
               (case merge_staging e st4 of
                  Inl oc \<Rightarrow> Inl oc
                | Inr st5 \<Rightarrow> Inr (df, st5))))"

definition run :: "env \<Rightarrow> frame option \<Rightarrow> database \<Rightarrow> outcome" where
  "run e csv d =
     (case run_to_merge e csv d of
        Inl oc \<Rightarrow> oc
      | Inr (df, st) \<Rightarrow> finish e df st)"

section \<open>The cleaned value of a cell\<close>

text \<open>
  The text of a cell with its commas and double quotes taken out: the stripped value of
  the cell. The properties below compare the cells that the
  script computes column by column with \<open>take n (stripped c)\<close>.
\<close>

definition stripped :: "cell \<Rightarrow> string" where
  "stripped c = filter (\<lambda>x. x \<noteq> dquote) (filter (\<lambda>x. x \<noteq> comma) (py_str c))"

text \<open>What lines 37 to 39 make of one row of the frame \<open>df\<close>.\<close>

definition clean_row :: "frame \<Rightarrow> cell list \<Rightarrow> cell list" where
  "clean_row df r =
     r[get_loc (columns df) ''name'' := Val (take 255 (stripped (cell_of df r ''name''))),
       get_loc (columns df) ''uni_roll'' := Val (take 100 (stripped (cell_of df r ''uni_roll''))),
       get_loc (columns df) ''branch'' := Val (take 50 (stripped (cell_of df r ''branch'')))]"

section \<open>Concrete inputs\<close>

text \<open>An environment in which nothing fails, and a database without tables.\<close>

definition no_failures :: env where
  "no_failures = \<lparr>fails = (\<lambda>c. False), copy_escaped = (\<lambda>b. None)\<rparr>"

definition fresh_database :: database where
  "fresh_database = \<lparr>students = None, temp_students = None\<rparr>"

text \<open>An environment in which the connection cannot be made.\<close>

definition unreachable :: env where
  "unreachable = \<lparr>fails = (\<lambda>c. c = Connect), copy_escaped = (\<lambda>b. None)\<rparr>"

text \<open>A file of two students.\<close>

definition two_students :: frame where
  "two_students =
     \<lparr>columns = [''name'', ''uni_roll'', ''branch''],
      rows = [[Val ''Asha'', Val ''R1'', Val ''CSE''], [Val ''Ravi'', Val ''R2'', Val ''ECE'']]\<rparr>"

text \<open>Environments in which one call fails: the final DROP TABLE, and the copy.\<close>

definition drop_breaks :: env where
  "drop_breaks = \<lparr>fails = (\<lambda>c. c = Execute DropTemp), copy_escaped = (\<lambda>b. None)\<rparr>"

definition copy_breaks :: env where
  "copy_breaks =
     \<lparr>fails = (\<lambda>c. case c of CopyFrom b \<Rightarrow> True | _ \<Rightarrow> False),
      copy_escaped = (\<lambda>b. None)\<rparr>"

text \<open>A database whose permanent table already holds a student of an earlier load.\<close>

definition one_old_row :: database where
  "one_old_row =
     \<lparr>students = Some [(Some ''Old'', Some ''R0'', Some ''ME'')], temp_students = None\<rparr>"

text \<open>A database in the middle of a run: two students stored, two rows staged.\<close>

definition staged_update :: database where
  "staged_update =
     \<lparr>students = Some [(Some ''Old'', Some ''R0'', Some ''ME''), (Some ''Asha'', Some ''R1'', Some ''CSE'')],
      temp_students = Some [(Some ''New'', Some ''R0'', Some ''EE''), (Some ''Ravi'', Some ''R2'', Some ''ECE'')]\<rparr>"

text \<open>A file in which the third row repeats the \<open>uni_roll\<close> of the first.\<close>

definition with_duplicates :: frame where
  "with_duplicates =
     \<lparr>columns = [''name'', ''uni_roll'', ''branch''],
      rows = [[Val ''Asha'', Val ''R1'', Val ''CSE''], [Val ''Ravi'', Val ''R2'', Val ''ECE''],
              [Val ''Asha B'', Val ''R1'', Val ''ME'']]\<rparr>"


text \<open>A file whose only row has no \<open>uni_roll\<close>.\<close>

definition missing_roll :: frame where
  "missing_roll =
     \<lparr>columns = [''name'', ''uni_roll'', ''branch''],
      rows = [[Val ''Alice'', NaN, Val ''CSE'']]\<rparr>"

text \<open>The file of the specification's example: a fourth column, a comma in the name.\<close>

definition spec_example :: frame where
  "spec_example =
     \<lparr>columns = [''name'', ''uni_roll'', ''branch'', ''extra_col''],
      rows = [[Val ''A,B'', Val ''R1'', Val ''X'', Val ''ignored'']]\<rparr>"

section \<open>Text that the copy leaves alone\<close>

text \<open>
  A text is plain when it holds none of the characters that the CSV writer or the COPY
  text format treat specially. \<open>positional_row\<close> is the database row that a line of
  three plain fields is decoded to, and \<open>text_line\<close> is that line. \<open>no_control\<close> says of
  a frame that no cell holds a newline, a carriage return or a backslash.
\<close>

definition plain_text :: "string \<Rightarrow> bool" where
  "plain_text s =
     (\<not> list_ex (\<lambda>c. c = comma \<or> c = dquote \<or> c = newline \<or> c = carriage_return \<or> c = backslash) s)"

definition positional_row :: "cell list \<Rightarrow> dbrow" where
  "positional_row r = (Some (cell_text (r ! 0)), Some (cell_text (r ! 1)), Some (cell_text (r ! 2)))"

definition plain_rows :: "cell list list \<Rightarrow> bool" where
  "plain_rows rs = list_all (\<lambda>r. length r = 3 \<and> list_all (\<lambda>c. plain_text (cell_text c)) r) rs"

definition text_line :: "cell list \<Rightarrow> string" where
  "text_line r = cell_text (r ! 0) @ comma # cell_text (r ! 1) @ comma # cell_text (r ! 2)"

definition no_control :: "frame \<Rightarrow> bool" where
  "no_control df =
     list_all (\<lambda>r. list_all (\<lambda>c. \<not> list_ex (\<lambda>x. x = newline \<or> x = carriage_return \<or> x = backslash)
                                     (cell_text c)) r) (rows df)"

section \<open>More concrete inputs\<close>

text \<open>
  A file whose three columns come in another order, and a file with a line break inside
  a (quoted) name.
\<close>

definition reordered_columns :: frame where
  "reordered_columns =
     \<lparr>columns = [''uni_roll'', ''name'', ''branch''],
      rows = [[Val ''R1'', Val ''Alice'', Val ''CSE'']]\<rparr>"

definition multiline_name :: frame where
  "multiline_name =
     \<lparr>columns = [''name'', ''uni_roll'', ''branch''],
      rows = [[Val (''Al'' @ newline # ''ice''), Val ''R1'', Val ''CSE'']]\<rparr>"

section \<open>Reading a CSV text\<close>

text \<open>
  The script reads its input with \<^verbatim>\<open>pd.read_csv(..., sep=',', quotechar='"',
  escapechar='\\')\<close>. The tokenizer of that reader is modelled as far as it splits a text
  into records of fields, one character at a time: \<open>esc\<close> is the escape character
  (\<open>None\<close> for a reader without one), a field may be quoted, a doubled quote inside a
  quoted field is one quote, and a line feed or a carriage return outside quotes ends the
  record. Blank lines are skipped. What pandas then makes of the fields (the header, the
  missing values, the types) is not part of it.
\<close>

datatype rstate =
  StartRecord | StartField | InField | InQuoted | EscapedChar | EscapeInQuoted
| QuoteInQuoted | EatCRNL

record reader =
  mode :: rstate
  cur_field :: string
  cur_record :: "string list"
  done_records :: "string list list"

definition push_char :: "char \<Rightarrow> rstate \<Rightarrow> reader \<Rightarrow> reader" where
  "push_char c s rd = rd\<lparr>mode := s, cur_field := cur_field rd @ [c]\<rparr>"

definition end_field :: "rstate \<Rightarrow> reader \<Rightarrow> reader" where
  "end_field s rd = rd\<lparr>mode := s, cur_field := [], cur_record := cur_record rd @ [cur_field rd]\<rparr>"

definition end_line :: "rstate \<Rightarrow> reader \<Rightarrow> reader" where
  "end_line s rd = rd\<lparr>mode := s, cur_field := [], cur_record := [], done_records := done_records rd @ [cur_record rd]\<rparr>"

definition start_field :: "char option \<Rightarrow> reader \<Rightarrow> char \<Rightarrow> reader" where
  "start_field esc rd c =
     (if c = newline then end_line StartRecord (end_field StartRecord rd)
      else if c = carriage_return then end_field EatCRNL rd
      else if c = dquote then rd\<lparr>mode := InQuoted\<rparr>
      else if Some c = esc then rd\<lparr>mode := EscapedChar\<rparr>
      else if c = comma then end_field StartField rd
      else push_char c InField rd)"









section \<open>What the steps change\<close>

lemma print_simps [simp]:
  "stdout (print m st) = stdout st @ [m]"
  "db_calls (print m st) = db_calls st"
  "db (print m st) = db st"
  "connection (print m st) = connection st"
  "failed_rows_csv (print m st) = failed_rows_csv st"
  by (simp_all add: print_def)

lemma close_connection_simps [simp]:
  "stdout (close_connection st) = stdout st"
  "db_calls (close_connection st) = db_calls st"
  "db (close_connection st) = db st"
  "connection (close_connection st) = Closed"
  "failed_rows_csv (close_connection st) = failed_rows_csv st"
  by (simp_all add: close_connection_def)

lemma cur_execute_simps [simp]:
  "stdout (snd (cur_execute e s st)) = stdout st"
  "db_calls (snd (cur_execute e s st)) = db_calls st @ [Execute s]"
  "connection (snd (cur_execute e s st)) = connection st"
  "failed_rows_csv (snd (cur_execute e s st)) = failed_rows_csv st"
  by (simp_all add: cur_execute_def Let_def split: option.splits)

lemma cur_execute_ok:
  "fst (cur_execute e s st) \<longleftrightarrow> \<not> fails e (Execute s) \<and> sql s (db st) \<noteq> None"
  by (auto simp: cur_execute_def Let_def split: option.splits)

lemma cur_execute_db:
  "db (snd (cur_execute e s st)) =
     (if fails e (Execute s) then db st
      else (case sql s (db st) of None \<Rightarrow> db st | Some d \<Rightarrow> d))"
  by (simp add: cur_execute_def Let_def split: option.splits)

lemma cur_copy_from_simps [simp]:
  "stdout (snd (cur_copy_from e b st)) = stdout st"
  "db_calls (snd (cur_copy_from e b st)) = db_calls st @ [CopyFrom b]"
  "connection (snd (cur_copy_from e b st)) = connection st"
  "failed_rows_csv (snd (cur_copy_from e b st)) = failed_rows_csv st"
  by (simp_all add: cur_copy_from_def Let_def split: option.splits)

lemma cur_copy_from_ok:
  "fst (cur_copy_from e b st) \<longleftrightarrow> \<not> fails e (CopyFrom b) \<and> copy_from e b (db st) \<noteq> None"
  by (auto simp: cur_copy_from_def Let_def split: option.splits)

lemma cur_copy_from_db:
  "db (snd (cur_copy_from e b st)) =
     (if fails e (CopyFrom b) then db st
      else (case copy_from e b (db st) of None \<Rightarrow> db st | Some d \<Rightarrow> d))"
  by (simp add: cur_copy_from_def Let_def split: option.splits)

text \<open>Step 1 prints and touches nothing else; when it ends the run, the status is 1.\<close>

lemma load_and_clean_Inl:
  assumes "load_and_clean csv st = Inl oc"
  shows "fst oc = 1 \<and> db_calls (snd oc) = db_calls st \<and> db (snd oc) = db st
         \<and> connection (snd oc) = connection st \<and> failed_rows_csv (snd oc) = failed_rows_csv st"
  using assms
  by (auto simp: load_and_clean_def load_csv_def validate_columns_def sys_exit_def Let_def
      split: option.splits if_splits prod.splits sum.splits)

lemma remove_duplicates_state:
  "db_calls (snd (remove_duplicates df st)) = db_calls st
   \<and> db (snd (remove_duplicates df st)) = db st
   \<and> connection (snd (remove_duplicates df st)) = connection st
   \<and> failed_rows_csv (snd (remove_duplicates df st)) = failed_rows_csv st"
  by (simp add: remove_duplicates_def Let_def)

lemma validate_columns_Inr:
  assumes "validate_columns df st = Inr (df', st')"
  shows "db_calls st' = db_calls st \<and> db st' = db st
         \<and> connection st' = connection st \<and> failed_rows_csv st' = failed_rows_csv st"
  using assms
  by (auto simp: validate_columns_def sys_exit_def split: if_splits)

lemma load_and_clean_Inr:
  assumes "load_and_clean csv st = Inr (df, st')"
  shows "db_calls st' = db_calls st \<and> db st' = db st
         \<and> connection st' = connection st \<and> failed_rows_csv st' = failed_rows_csv st"
proof -
  from assms obtain df0 where f0: "csv = Some df0"
    by (cases csv) (auto simp: load_and_clean_def load_csv_def sys_exit_def Let_def)
  let ?st1 = "print (Loaded (length (rows df0))) (print LoadingCsv st)"
  from assms f0 obtain df1 st2 where v: "validate_columns df0 ?st1 = Inr (df1, st2)"
    by (cases "validate_columns df0 ?st1")
       (auto simp: load_and_clean_def load_csv_def Let_def)
  from assms f0 v have st': "st' = print (FinalRowCount (length (rows df)))
      (snd (remove_duplicates (clean_data df1) st2))"
    by (auto simp: load_and_clean_def load_csv_def Let_def split: prod.splits)
  from validate_columns_Inr [OF v] remove_duplicates_state [of "clean_data df1" st2] st'
  show ?thesis by simp
qed

section \<open>A connection that cannot be made\<close>

text \<open>
  C6. When \<^verbatim>\<open>psycopg2.connect\<close> raises, whatever the input and the database, the process
  exits with status 1, the only driver call it has made is the connection attempt (no
  statement executed, no copy), the database is as it was, and no connection is open.
\<close>

theorem connection_failure_exits:
  assumes "fails e Connect"
  shows "fst (run e csv d) = 1
         \<and> list_all (\<lambda>c. c = Connect) (db_calls (snd (run e csv d)))
         \<and> db (snd (run e csv d)) = d
         \<and> connection (snd (run e csv d)) = NotConnected"
proof (cases "load_and_clean csv (initial_state d)")
  case (Inl oc)
  with load_and_clean_Inl [OF Inl] show ?thesis
    by (simp add: run_def run_to_merge_def run_to_staging_def initial_state_def)
next
  case (Inr p)
  obtain df st where p: "p = (df, st)" by (cases p)
  from load_and_clean_Inr [of csv "initial_state d" df st] Inr p assms show ?thesis
    by (simp add: run_def run_to_merge_def run_to_staging_def initial_state_def connect_def
        sys_exit_def Let_def)
qed

theorem connection_failure_exits_witness:
  "fails unreachable Connect
   \<and> fst (run unreachable (Some two_students) fresh_database) = 1
   \<and> list_all (\<lambda>c. c = Connect) (db_calls (snd (run unreachable (Some two_students) fresh_database)))
   \<and> db (snd (run unreachable (Some two_students) fresh_database)) = fresh_database
   \<and> connection (snd (run unreachable (Some two_students) fresh_database)) = NotConnected"
proof -
  have h: "fails unreachable Connect" by (simp add: unreachable_def)
  from connection_failure_exits [OF h, of "Some two_students" fresh_database] h
  show ?thesis by simp
qed

section \<open>Warnings that do not end the run\<close>

lemma finish_status: "fst (finish e df st) = 0"
  by (simp add: finish_def)

lemma cleanup_temp_simps:
  "stdout (cleanup_temp e st) = stdout st @ [if fst (cur_execute e DropTemp st) then TempCleaned else WarnDropTemp]"
  "connection (cleanup_temp e st) = connection st"
  "failed_rows_csv (cleanup_temp e st) = failed_rows_csv st"
  "db_calls (cleanup_temp e st) = db_calls st @ [Execute DropTemp]"
  "db (cleanup_temp e st) = db (snd (cur_execute e DropTemp st))"
  by (simp_all add: cleanup_temp_def Let_def split: prod.splits)
   (metis cur_execute_simps fst_conv snd_conv)+

lemma verify_count_simps:
  "db (verify_count e df st) = db st"
  "connection (verify_count e df st) = connection st"
  "failed_rows_csv (verify_count e df st) = failed_rows_csv st"
  "db_calls (verify_count e df st) = db_calls st @ [Execute SelectCount]"
  by (simp_all add: verify_count_def cur_execute_def sql_def Let_def split: option.splits)

lemma verify_count_stdout:
  "stdout (verify_count e df st) = stdout st @
     (if fails e (Execute SelectCount) then [WarnVerify]
      else (case select_count (db st) of None \<Rightarrow> [WarnVerify]
            | Some n \<Rightarrow> Verification n # (if n \<noteq> length (rows df) then [WarnExpected (length (rows df)) n] else [])))"
  by (simp add: verify_count_def cur_execute_def sql_def Let_def split: option.splits)

text \<open>
  C9. Once the merge has succeeded, the run exits with status 0 and with the connection
  closed, whatever happens afterwards: a DROP of the staging table that fails prints a
  warning, a count that cannot be taken prints a warning, and a count that differs from
  the number of cleaned rows prints a warning.
\<close>

theorem warnings_do_not_abort:
  assumes "run_to_merge e csv d = Inr (df, st)"
  shows "fst (run e csv d) = 0
         \<and> connection (snd (run e csv d)) = Closed
         \<and> (fails e (Execute DropTemp) \<longrightarrow> WarnDropTemp \<in> set (stdout (snd (run e csv d))))
         \<and> (fails e (Execute SelectCount) \<longrightarrow> WarnVerify \<in> set (stdout (snd (run e csv d))))
         \<and> (\<forall>n. \<not> fails e (Execute SelectCount) \<and> select_count (db (snd (run e csv d))) = Some n
                  \<and> n \<noteq> length (rows df)
              \<longrightarrow> WarnExpected (length (rows df)) n \<in> set (stdout (snd (run e csv d))))"
  using assms
  by (simp add: run_def finish_def verify_count_stdout verify_count_simps cleanup_temp_simps
      cur_execute_ok cur_execute_db select_count_def sql_def drop_temp_def
      split: option.splits)

theorem warnings_do_not_abort_witness:
  "fails drop_breaks (Execute DropTemp)
   \<and> \<not> fails drop_breaks (Execute SelectCount)
   \<and> select_count (db (snd (run drop_breaks (Some two_students) one_old_row))) = Some 3
   \<and> length (rows two_students) = 2
   \<and> fst (run drop_breaks (Some two_students) one_old_row) = 0
   \<and> connection (snd (run drop_breaks (Some two_students) one_old_row)) = Closed
   \<and> WarnDropTemp \<in> set (stdout (snd (run drop_breaks (Some two_students) one_old_row)))
   \<and> WarnExpected 2 3 \<in> set (stdout (snd (run drop_breaks (Some two_students) one_old_row)))"
proof -
  have "case run_to_merge drop_breaks (Some two_students) one_old_row of
          Inl oc \<Rightarrow> False | Inr p \<Rightarrow> fst p = two_students"
    by code_simp
  then obtain st where
    m: "run_to_merge drop_breaks (Some two_students) one_old_row = Inr (two_students, st)"
    by (auto split: sum.splits)
  have c: "select_count (db (snd (run drop_breaks (Some two_students) one_old_row))) = Some 3"
    by code_simp
  have f: "fails drop_breaks (Execute DropTemp)" "\<not> fails drop_breaks (Execute SelectCount)"
    by (simp_all add: drop_breaks_def)
  have l: "length (rows two_students) = 2" by (simp add: two_students_def)
  from warnings_do_not_abort [OF m] c f l show ?thesis by simp
qed


section \<open>A copy that fails\<close>

lemma run_to_staging_cleaned:
  assumes "run_to_staging e csv d = Inr (df, st)"
  shows "\<exists>st0. load_and_clean csv (initial_state d) = Inr (df, st0)"
  using assms
  by (auto simp: run_to_staging_def split: sum.splits prod.splits)

section \<open>The merge into the permanent table\<close>

lemma dbrow_collapse [simp]: "(name_of r, key_of r, branch_of r) = r"
  by (simp add: name_of_def key_of_def branch_of_def)

lemma upsert_row_keys:
  "map key_of (upsert_row t r) =
     (if key_of r \<in> set (map key_of t) then map key_of t else map key_of t @ [key_of r])"
proof -
  have "map key_of (map (\<lambda>x. if key_of x = key_of r then (name_of r, key_of x, branch_of r) else x) t)
        = map key_of t"
    by (induction t) (auto simp: key_of_def)
  then show ?thesis by (simp add: upsert_row_def)
qed

lemma upsert_row_mem: "r \<in> set (upsert_row t r)"
proof (cases "key_of r \<in> set (map key_of t)")
  case True
  then obtain x where x: "x \<in> set t" "key_of x = key_of r" by auto
  then have "(name_of r, key_of x, branch_of r) \<in> set (upsert_row t r)"
    using True by (force simp: upsert_row_def)
  with x show ?thesis by simp
next
  case False
  then show ?thesis by (simp add: upsert_row_def)
qed

lemma upsert_row_other:
  assumes "x \<in> set t" "key_of x \<noteq> key_of r"
  shows "x \<in> set (upsert_row t r)"
  using assms by (force simp: upsert_row_def)

lemma foldl_upsert_keys:
  "set (map key_of (foldl upsert_row s t)) = set (map key_of s) \<union> set (map key_of t)"
proof (induction t arbitrary: s)
  case Nil
  show ?case by simp
next
  case (Cons r t)
  have "set (map key_of (upsert_row s r)) = insert (key_of r) (set (map key_of s))"
    by (auto simp: upsert_row_keys)
  with Cons [of "upsert_row s r"] show ?case by auto
qed

lemma foldl_upsert_distinct:
  "distinct (map key_of s) \<Longrightarrow> distinct (map key_of (foldl upsert_row s t))"
  by (induction t arbitrary: s) (simp_all add: upsert_row_keys)

lemma foldl_upsert_untouched:
  "x \<in> set s \<Longrightarrow> key_of x \<notin> set (map key_of t) \<Longrightarrow> x \<in> set (foldl upsert_row s t)"
proof (induction t arbitrary: s)
  case Nil
  then show ?case by simp
next
  case (Cons r t)
  from Cons.prems have "x \<in> set (upsert_row s r)"
    by (intro upsert_row_other) auto
  with Cons.IH [of "upsert_row s r"] Cons.prems show ?case by simp
qed

lemma foldl_upsert_staged:
  "distinct (map key_of t) \<Longrightarrow> r \<in> set t \<Longrightarrow> r \<in> set (foldl upsert_row s t)"
proof (induction t arbitrary: s)
  case Nil
  then show ?case by simp
next
  case (Cons a t)
  show ?case
  proof (cases "r = a")
    case True
    from Cons.prems(1) have "key_of a \<notin> set (map key_of t)" by simp
    with foldl_upsert_untouched [of a "upsert_row s a" t] upsert_row_mem [of a s] True
    show ?thesis by simp
  next
    case False
    with Cons show ?thesis by simp
  qed
qed

lemma distinct_key_filter:
  "distinct (map f xs) \<Longrightarrow> r \<in> set xs \<Longrightarrow> filter (\<lambda>x. f x = f r) xs = [r]"
proof (induction xs)
  case Nil
  then show ?case by simp
next
  case (Cons a xs)
  show ?case
  proof (cases "a = r")
    case True
    with Cons.prems(1) have "filter (\<lambda>x. f x = f r) xs = []"
      by (force simp: filter_empty_conv image_iff)
    with True show ?thesis by simp
  next
    case False
    with Cons.prems have "r \<in> set xs" "f a \<noteq> f r" by auto
    with Cons show ?thesis by simp
  qed
qed

lemma foldl_upsert_no_null:
  assumes "\<not> list_ex (\<lambda>r. key_of r = None) s" and "\<not> list_ex (\<lambda>r. key_of r = None) t"
  shows "\<not> list_ex (\<lambda>r. key_of r = None) (foldl upsert_row s t)"
proof
  assume "list_ex (\<lambda>r. key_of r = None) (foldl upsert_row s t)"
  then have "None \<in> set (map key_of (foldl upsert_row s t))"
    by (force simp: list_ex_iff)
  then have "None \<in> set (map key_of s) \<union> set (map key_of t)"
    by (simp only: foldl_upsert_keys)
  with assms show False
    by (auto simp: list_ex_iff)
qed

text \<open>
  C4. A merge that succeeds on a permanent table whose key is unique leaves the key
  unique (and never NULL). For every staged row, the one row of the table with its
  \<open>uni_roll\<close> is that staged row, name and branch included, also when the \<open>uni_roll\<close> was
  in the table before; a row whose \<open>uni_roll\<close> is not staged stays; and no other
  \<open>uni_roll\<close> appears.
\<close>

theorem merge_keeps_key_unique:
  assumes "students d = Some s" and "primary_key_ok s"
    and "temp_students d = Some t" and "insert_on_conflict d = Some d'"
  shows "\<exists>s'. students d' = Some s' \<and> primary_key_ok s'
           \<and> (\<forall>r\<in>set t. filter (\<lambda>x. key_of x = key_of r) s' = [r])
           \<and> (\<forall>x\<in>set s. key_of x \<notin> set (map key_of t) \<longrightarrow> x \<in> set s')
           \<and> set (map key_of s') = set (map key_of s) \<union> set (map key_of t)"
proof -
  from assms have t: "\<not> list_ex (\<lambda>r. key_of r = None) t" "distinct (map key_of t)"
    and d': "students d' = Some (foldl upsert_row s t)"
    by (auto simp: insert_on_conflict_def split: if_splits)
  let ?s' = "foldl upsert_row s t"
  from assms(2) have dist: "distinct (map key_of ?s')"
    by (simp add: primary_key_ok_def foldl_upsert_distinct)
  from assms(2) t(1) have "primary_key_ok ?s'"
    using dist foldl_upsert_no_null [of s t] by (simp add: primary_key_ok_def)
  moreover have "\<forall>r\<in>set t. filter (\<lambda>x. key_of x = key_of r) ?s' = [r]"
    using dist t(2) by (auto intro: distinct_key_filter foldl_upsert_staged)
  moreover have "\<forall>x\<in>set s. key_of x \<notin> set (map key_of t) \<longrightarrow> x \<in> set ?s'"
    by (auto intro: foldl_upsert_untouched)
  ultimately show ?thesis using d' foldl_upsert_keys [of s t] by simp
qed

theorem merge_keeps_key_unique_witness:
  "students staged_update =
     Some [(Some ''Old'', Some ''R0'', Some ''ME''), (Some ''Asha'', Some ''R1'', Some ''CSE'')]
   \<and> primary_key_ok [(Some ''Old'', Some ''R0'', Some ''ME''), (Some ''Asha'', Some ''R1'', Some ''CSE'')]
   \<and> temp_students staged_update =
       Some [(Some ''New'', Some ''R0'', Some ''EE''), (Some ''Ravi'', Some ''R2'', Some ''ECE'')]
   \<and> (\<exists>d' s'. insert_on_conflict staged_update = Some d' \<and> students d' = Some s'
          \<and> primary_key_ok s'
          \<and> filter (\<lambda>x. key_of x = Some ''R0'') s' = [(Some ''New'', Some ''R0'', Some ''EE'')]
          \<and> (Some ''Asha'', Some ''R1'', Some ''CSE'') \<in> set s')"
proof -
  let ?s = "[(Some ''Old'', Some ''R0'', Some ''ME''), (Some ''Asha'', Some ''R1'', Some ''CSE'')]"
  let ?t = "[(Some ''New'', Some ''R0'', Some ''EE''), (Some ''Ravi'', Some ''R2'', Some ''ECE'')]"
  have s: "students staged_update = Some ?s" and t: "temp_students staged_update = Some ?t"
    by (simp_all add: staged_update_def)
  have pk: "primary_key_ok ?s"
    by (simp add: primary_key_ok_def key_of_def)
  have "insert_on_conflict staged_update \<noteq> None"
    by (simp add: insert_on_conflict_def staged_update_def key_of_def)
  then obtain d' where d': "insert_on_conflict staged_update = Some d'"
    by blast
  from merge_keeps_key_unique [OF s pk t d'] obtain s' where
    s': "students d' = Some s'" "primary_key_ok s'"
    and staged: "\<forall>r\<in>set ?t. filter (\<lambda>x. key_of x = key_of r) s' = [r]"
    and kept: "\<forall>x\<in>set ?s. key_of x \<notin> set (map key_of ?t) \<longrightarrow> x \<in> set s'"
    by blast
  from staged have "filter (\<lambda>x. key_of x = Some ''R0'') s' = [(Some ''New'', Some ''R0'', Some ''EE'')]"
    by (simp add: key_of_def)
  moreover from kept have "(Some ''Asha'', Some ''R1'', Some ''CSE'') \<in> set s'"
    by (simp add: key_of_def)
  ultimately show ?thesis using s t pk d' s' by blast
qed

section \<open>Deduplication\<close>

text \<open>
  The rows that \<^verbatim>\<open>duplicated\<close> marks and the rows it leaves, by induction on the rows
  with the keys seen so far.
\<close>

lemma masked_Cons:
  "map fst (filter snd (zip (r # rs) (b # bs))) =
     (if b then r # map fst (filter snd (zip rs bs)) else map fst (filter snd (zip rs bs)))"
  by simp

lemma kept_keys:
  "set (map k (map fst (filter snd (zip rs (map Not (duplicated_from seen (map k rs)))))))
     = set (map k rs) - set seen"
  by (induction rs arbitrary: seen) auto

lemma kept_distinct:
  "distinct (map k (map fst (filter snd (zip rs (map Not (duplicated_from seen (map k rs)))))))"
proof (induction rs arbitrary: seen)
  case Nil
  show ?case by simp
next
  case (Cons a rs)
  have "k a \<notin> set (map k (map fst (filter snd (zip rs (map Not (duplicated_from (k a # seen) (map k rs)))))))"
    by (simp only: kept_keys) simp
  with Cons [of "k a # seen"] show ?case by simp
qed

lemma kept_first:
  "r \<in> set (map fst (filter snd (zip rs (map Not (duplicated_from seen (map k rs))))))
   \<Longrightarrow> find (\<lambda>x. k x = k r) rs = Some r"
proof (induction rs arbitrary: seen)
  case Nil
  then show ?case by simp
next
  case (Cons a rs)
  let ?rest = "map fst (filter snd (zip rs (map Not (duplicated_from (k a # seen) (map k rs)))))"
  show ?case
  proof (cases "r \<in> set ?rest")
    case True
    then have "k r \<in> k ` set ?rest" by (rule imageI)
    then have "k r \<in> set (map k ?rest)" by (simp only: set_map)
    then have "k r \<noteq> k a" by (simp only: kept_keys) auto
    with Cons.IH [OF True] show ?thesis by simp
  next
    case False
    with Cons.prems have "r = a" by (simp split: if_splits)
    then show ?thesis by simp
  qed
qed

lemma mask_lengths:
  "length (map fst (filter snd (zip rs (duplicated_from seen (map k rs)))))
   + length (map fst (filter snd (zip rs (map Not (duplicated_from seen (map k rs))))))
   = length rs"
  by (induction rs arbitrary: seen) auto

lemma no_duplicates_iff:
  "map fst (filter snd (zip rs (duplicated_from seen (map k rs)))) = []
   \<longleftrightarrow> distinct (map k rs) \<and> set (map k rs) \<inter> set seen = {}"
  by (induction rs arbitrary: seen) auto

lemma remdups_snoc:
  "remdups (ys @ [x]) = filter (\<lambda>y. y \<noteq> x) (remdups ys) @ [x]"
  by (induction ys) auto

lemma first_occurrences_Cons:
  "rev (remdups (rev (x # xs))) = x # filter (\<lambda>y. y \<noteq> x) (rev (remdups (rev xs)))"
  by (simp add: remdups_snoc rev_filter)

lemma kept_order:
  "map k (map fst (filter snd (zip rs (map Not (duplicated_from seen (map k rs))))))
   = filter (\<lambda>x. x \<notin> set seen) (rev (remdups (rev (map k rs))))"
proof (induction rs arbitrary: seen)
  case Nil
  show ?case by simp
next
  case (Cons a rs)
  have "filter (\<lambda>x. x \<notin> set seen) (filter (\<lambda>y. y \<noteq> k a) (rev (remdups (rev (map k rs)))))
        = filter (\<lambda>x. x \<notin> set (k a # seen)) (rev (remdups (rev (map k rs))))"
    by (auto intro: filter_cong)
  with Cons [of "k a # seen"] show ?case
    by (simp add: first_occurrences_Cons del: rev.simps remdups.simps)
qed


lemma distinct_keys_find:
  "distinct (map k rs) \<Longrightarrow> r \<in> set rs \<Longrightarrow> find (\<lambda>x. k x = k r) rs = Some r"
  by (induction rs) (auto simp: image_iff)

lemma getitem_mask_simps [simp]:
  "columns (getitem_mask df m) = columns df"
  "rows (getitem_mask df m) = map fst (filter snd (zip (rows df) m))"
  by (simp_all add: getitem_mask_def)

lemma cell_of_cong: "columns df' = columns df \<Longrightarrow> cell_of df' r c = cell_of df r c"
  by (simp add: cell_of_def)

text \<open>
  C2. Lines 41 to 45 leave exactly one row for every \<open>uni_roll\<close> of the data they are
  given: the \<open>uni_roll\<close> values of the result are pairwise different, they are the values
  of the input in the order of their first appearance, and every row of the result is the
  first row of the input with its \<open>uni_roll\<close>. When some \<open>uni_roll\<close> is repeated, rows are
  discarded and the warning printed carries their number.
\<close>

theorem duplicates_keep_first:
  assumes "remove_duplicates df st = (df', st')"
  shows "columns df' = columns df
         \<and> distinct (getitem df' ''uni_roll'')
         \<and> set (getitem df' ''uni_roll'') = set (getitem df ''uni_roll'')
         \<and> getitem df' ''uni_roll'' = rev (remdups (rev (getitem df ''uni_roll'')))
         \<and> (\<forall>r\<in>set (rows df').
               find (\<lambda>x. cell_of df x ''uni_roll'' = cell_of df r ''uni_roll'') (rows df) = Some r)
         \<and> (\<not> distinct (getitem df ''uni_roll'') \<longrightarrow>
               length (rows df') < length (rows df)
               \<and> stdout st' = stdout st @ [WarnDuplicates (length (rows df) - length (rows df'))])"
proof -
  define k where "k = (\<lambda>r. cell_of df r ''uni_roll'')"
  define rs where "rs = rows df"
  define dups where "dups = map fst (filter snd (zip rs (duplicated_from [] (map k rs))))"
  define kept where "kept = map fst (filter snd (zip rs (map Not (duplicated_from [] (map k rs)))))"
  have keys: "getitem df ''uni_roll'' = map k rs"
    by (simp add: getitem_def k_def rs_def)
  have rd: "remove_duplicates df st =
      (if dups \<noteq> [] then (df\<lparr>rows := kept\<rparr>, print (WarnDuplicates (length dups)) st)
       else (df, st))"
    by (simp add: remove_duplicates_def drop_duplicates_def getitem_mask_def duplicated_def
        Let_def keys dups_def kept_def rs_def)
  have empty: "dups = [] \<longleftrightarrow> distinct (map k rs)"
    using no_duplicates_iff [of rs "[]" k] by (simp add: dups_def)
  show ?thesis
  proof (cases "distinct (map k rs)")
    case True
    with rd empty assms have same: "df' = df" "st' = st" by simp_all
    from True have "rev (remdups (rev (map k rs))) = map k rs"
      by (simp add: distinct_remdups_id)
    moreover from True have "\<forall>r\<in>set rs. find (\<lambda>x. k x = k r) rs = Some r"
      by (auto intro: distinct_keys_find)
    ultimately show ?thesis
      using True same keys by (simp add: k_def rs_def)
  next
    case False
    with rd empty assms have df': "df' = df\<lparr>rows := kept\<rparr>"
      and st': "st' = print (WarnDuplicates (length dups)) st" by simp_all
    from df' have cols: "columns df' = columns df" and rows': "rows df' = kept" by simp_all
    have keys': "getitem df' ''uni_roll'' = map k kept"
      by (simp add: getitem_def k_def rows' cell_of_cong [OF cols])
    have d: "distinct (map k kept)"
      unfolding kept_def by (rule kept_distinct)
    have s: "set (map k kept) = set (map k rs)"
      unfolding kept_def by (simp only: kept_keys) simp
    have ord: "map k kept = rev (remdups (rev (map k rs)))"
      unfolding kept_def by (simp only: kept_order) simp
    have first: "\<forall>r\<in>set kept. find (\<lambda>x. k x = k r) rs = Some r"
      unfolding kept_def by (rule ballI) (rule kept_first)
    have len: "length dups + length kept = length rs"
      unfolding dups_def kept_def by (rule mask_lengths)
    from False empty have "dups \<noteq> []" by simp
    then have pos: "0 < length dups" by simp
    from len pos have "length kept < length rs" "length dups = length rs - length kept"
      by arith+
    with cols d s ord first keys keys' rows' st' show ?thesis
      by (simp add: k_def rs_def)
  qed
qed


theorem duplicates_keep_first_witness:
  "\<not> distinct (getitem with_duplicates ''uni_roll'')
   \<and> rows (fst (remove_duplicates with_duplicates (initial_state fresh_database))) =
       [[Val ''Asha'', Val ''R1'', Val ''CSE''], [Val ''Ravi'', Val ''R2'', Val ''ECE'']]
   \<and> distinct (getitem (fst (remove_duplicates with_duplicates (initial_state fresh_database)))
         ''uni_roll'')
   \<and> getitem (fst (remove_duplicates with_duplicates (initial_state fresh_database))) ''uni_roll''
       = [Val ''R1'', Val ''R2'']
   \<and> stdout (snd (remove_duplicates with_duplicates (initial_state fresh_database))) =
       [WarnDuplicates 1]"
proof -
  let ?p = "remove_duplicates with_duplicates (initial_state fresh_database)"
  have nd: "\<not> distinct (getitem with_duplicates ''uni_roll'')"
    by code_simp
  have r: "rows (fst ?p) =
      [[Val ''Asha'', Val ''R1'', Val ''CSE''], [Val ''Ravi'', Val ''R2'', Val ''ECE'']]"
    by code_simp
  have l: "length (rows with_duplicates) = 3" "stdout (initial_state fresh_database) = []"
    by (simp_all add: with_duplicates_def initial_state_def)
  have o: "rev (remdups (rev (getitem with_duplicates ''uni_roll''))) = [Val ''R1'', Val ''R2'']"
    by code_simp
  from duplicates_keep_first [of with_duplicates "initial_state fresh_database" "fst ?p" "snd ?p"]
    nd r l o
  show ?thesis by simp
qed

section \<open>Cleaning\<close>

lemma get_loc_less: "c \<in> set cs \<Longrightarrow> get_loc cs c < length cs"
  by (induction cs) auto

lemma get_loc_nth: "c \<in> set cs \<Longrightarrow> cs ! get_loc cs c = c"
  by (induction cs) auto

lemma get_loc_inject:
  assumes "a \<in> set cs" and "b \<in> set cs" and "get_loc cs a = get_loc cs b"
  shows "a = b"
  by (metis assms get_loc_nth)

lemma clean_series_map:
  "clean_series n s = map (\<lambda>c. Val (take n (stripped c))) s"
  by (simp add: clean_series_def str_slice_def str_replace_def astype_str_def stripped_def)

lemma zip_with_image: "zip xs (map g xs) = map (\<lambda>x. (x, g x)) xs"
  by (induction xs) auto

lemma setitem_present:
  assumes "c \<in> set (columns df)"
  shows "setitem df c (map g (getitem df c)) =
         df\<lparr>rows := map (\<lambda>r. r[get_loc (columns df) c := g (cell_of df r c)]) (rows df)\<rparr>"
  using assms
  by (simp add: setitem_def getitem_def zip_with_image comp_def)

lemma expected_present:
  "list_all (\<lambda>c. c \<in> set (columns df)) expected_columns \<longleftrightarrow>
   ''name'' \<in> set (columns df) \<and> ''uni_roll'' \<in> set (columns df) \<and> ''branch'' \<in> set (columns df)"
  by (simp add: expected_columns_def)

lemma before_dropna:
  assumes "list_all (\<lambda>c. c \<in> set (columns df)) expected_columns"
  shows "clean_data df = dropna (df\<lparr>rows := map (clean_row df) (rows df)\<rparr>) expected_columns"
proof -
  from assms have n: "''name'' \<in> set (columns df)" and u: "''uni_roll'' \<in> set (columns df)"
    and b: "''branch'' \<in> set (columns df)"
    by (simp_all add: expected_present)
  let ?i = "get_loc (columns df) ''name''"
  let ?j = "get_loc (columns df) ''uni_roll''"
  let ?k = "get_loc (columns df) ''branch''"
  have ij: "?i \<noteq> ?j" using get_loc_inject [OF n u] by auto
  have ik: "?i \<noteq> ?k" using get_loc_inject [OF n b] by auto
  have jk: "?j \<noteq> ?k" using get_loc_inject [OF u b] by auto
  let ?df1 = "setitem df ''name'' (clean_series 255 (getitem df ''name''))"
  have df1: "?df1 = df\<lparr>rows := map (\<lambda>r. r[?i := Val (take 255 (stripped (cell_of df r ''name'')))]) (rows df)\<rparr>"
    by (simp only: clean_series_map setitem_present [OF n])
  have c1: "columns ?df1 = columns df" by (simp add: df1)
  let ?df2 = "setitem ?df1 ''uni_roll'' (clean_series 100 (getitem ?df1 ''uni_roll''))"
  have u1: "''uni_roll'' \<in> set (columns ?df1)" using u c1 by simp
  have df2: "?df2 = df\<lparr>rows := map (\<lambda>r. r[?i := Val (take 255 (stripped (cell_of df r ''name''))),
        ?j := Val (take 100 (stripped (cell_of df r ''uni_roll'')))]) (rows df)\<rparr>"
    unfolding df1
    by (simp add: clean_series_map setitem_present u cell_of_def comp_def ij)
  have c2: "columns ?df2 = columns df" by (simp add: df2)
  let ?df3 = "setitem ?df2 ''branch'' (clean_series 50 (getitem ?df2 ''branch''))"
  have b2: "''branch'' \<in> set (columns ?df2)" using b c2 by simp
  have df3: "?df3 = df\<lparr>rows := map (clean_row df) (rows df)\<rparr>"
    unfolding df2
    by (simp add: clean_series_map setitem_present b cell_of_def comp_def ik jk clean_row_def)
  show ?thesis
    by (simp only: clean_data_def Let_def df3)
qed


lemma clean_row_cells:
  assumes "list_all (\<lambda>c. c \<in> set (columns df)) expected_columns"
    and "length r = length (columns df)"
  shows "cell_of df (clean_row df r) ''name'' = Val (take 255 (stripped (cell_of df r ''name'')))"
    and "cell_of df (clean_row df r) ''uni_roll'' = Val (take 100 (stripped (cell_of df r ''uni_roll'')))"
    and "cell_of df (clean_row df r) ''branch'' = Val (take 50 (stripped (cell_of df r ''branch'')))"
    and "length (clean_row df r) = length r"
proof -
  from assms(1) have n: "''name'' \<in> set (columns df)" and u: "''uni_roll'' \<in> set (columns df)"
    and b: "''branch'' \<in> set (columns df)"
    by (simp_all add: expected_present)
  let ?i = "get_loc (columns df) ''name''"
  let ?j = "get_loc (columns df) ''uni_roll''"
  let ?k = "get_loc (columns df) ''branch''"
  have ij: "?i \<noteq> ?j" using get_loc_inject [OF n u] by auto
  have ik: "?i \<noteq> ?k" using get_loc_inject [OF n b] by auto
  have jk: "?j \<noteq> ?k" using get_loc_inject [OF u b] by auto
  have lt: "?i < length r" "?j < length r" "?k < length r"
    using get_loc_less [OF n] get_loc_less [OF u] get_loc_less [OF b] assms(2) by simp_all
  show "cell_of df (clean_row df r) ''name'' = Val (take 255 (stripped (cell_of df r ''name'')))"
    using ij ik lt by (simp add: clean_row_def cell_of_def)
  show "cell_of df (clean_row df r) ''uni_roll'' = Val (take 100 (stripped (cell_of df r ''uni_roll'')))"
    using ij jk lt by (simp add: clean_row_def cell_of_def)
  show "cell_of df (clean_row df r) ''branch'' = Val (take 50 (stripped (cell_of df r ''branch'')))"
    using ik jk lt by (simp add: clean_row_def cell_of_def)
  show "length (clean_row df r) = length r"
    by (simp add: clean_row_def)
qed

lemma wf_frame_row:
  "wf_frame df \<Longrightarrow> r \<in> set (rows df) \<Longrightarrow> length r = length (columns df)"
  by (simp add: wf_frame_def list_all_iff)

text \<open>
  Line 40 drops nothing: after \<^verbatim>\<open>astype(str)\<close> no cell of the three columns is missing.
\<close>

lemma clean_data_rows:
  assumes "wf_frame df" and "list_all (\<lambda>c. c \<in> set (columns df)) expected_columns"
  shows "clean_data df = df\<lparr>rows := map (clean_row df) (rows df)\<rparr>"
proof -
  let ?df3 = "df\<lparr>rows := map (clean_row df) (rows df)\<rparr>"
  have "list_all (\<lambda>c. cell_of ?df3 r' c \<noteq> NaN) expected_columns" if "r' \<in> set (rows ?df3)" for r'
  proof -
    from that obtain r where r: "r \<in> set (rows df)" "r' = clean_row df r" by auto
    from clean_row_cells [OF assms(2) wf_frame_row [OF assms(1) r(1)]] r(2)
    show ?thesis by (simp add: expected_columns_def cell_of_def)
  qed
  then have "filter (\<lambda>r. list_all (\<lambda>c. cell_of ?df3 r c \<noteq> NaN) expected_columns) (rows ?df3)
             = rows ?df3"
    by (simp only: filter_id_conv) blast
  then have "dropna ?df3 expected_columns = ?df3"
    by (simp add: dropna_def)
  with before_dropna [OF assms(2)] show ?thesis by simp
qed

lemma validate_columns_result:
  assumes "validate_columns df st = Inr (df1, st1)"
  shows "list_all (\<lambda>c. c \<in> set (columns df)) expected_columns"
    and "list_all (\<lambda>c. c \<in> set (columns df1)) expected_columns"
    and "rows df1 = (if length (columns df) > 3 then map (\<lambda>r. map (\<lambda>c. cell_of df r c) expected_columns) (rows df) else rows df)"
    and "columns df1 = (if length (columns df) > 3 then expected_columns else columns df)"
    and "wf_frame df \<Longrightarrow> wf_frame df1"
  using assms
  by (auto simp: validate_columns_def sys_exit_def getitem_list_def expected_columns_def
      wf_frame_def list_all_iff split: if_splits)



lemma masked_subset: "set (map fst (filter snd (zip rs m))) \<subseteq> set rs"
  by (auto dest: set_zip_leftD)

lemma remove_duplicates_subset:
  "set (rows (fst (remove_duplicates df st))) \<subseteq> set (rows df)"
  using masked_subset [of "rows df"]
  by (simp add: remove_duplicates_def drop_duplicates_def getitem_mask_def Let_def)

section \<open>Rows with a missing field\<close>

text \<open>
  C1. The row of \<open>missing_roll\<close> has no \<open>uni_roll\<close>. Line 38 turns the missing cell into
  the text \<^verbatim>\<open>nan\<close> before line 40 looks for missing cells, so the row stays in the
  cleaned data and a run that nothing disturbs stores it, with \<^verbatim>\<open>nan\<close> as its key.
\<close>

theorem missing_field_row_is_kept:
  "rows (clean_data missing_roll) = [[Val ''Alice'', Val ''nan'', Val ''CSE'']]
   \<and> fst (run no_failures (Some missing_roll) fresh_database) = 0
   \<and> students (db (snd (run no_failures (Some missing_roll) fresh_database)))
       = Some [(Some ''Alice'', Some ''nan'', Some ''CSE'')]"
  by code_simp

section \<open>The example of the specification\<close>

text \<open>
  C8. For the file with the columns name, \<open>uni_roll\<close>, branch, \<open>extra_col\<close> and the one row
  (A,B; R1; X; ignored), step 1 warns of the extra column and yields the cleaned data with
  the three expected columns and the single row (AB, R1, X); a run that nothing disturbs,
  on a database without tables, exits with status 0 and leaves exactly that row in the
  permanent table.
\<close>

theorem spec_example_persisted:
  "(case load_and_clean (Some spec_example) (initial_state fresh_database) of
      Inl oc \<Rightarrow> False
    | Inr (df, st) \<Rightarrow>
        df = \<lparr>columns = [''name'', ''uni_roll'', ''branch''],
              rows = [[Val ''AB'', Val ''R1'', Val ''X'']]\<rparr>
        \<and> stdout st = [LoadingCsv, Loaded 1, WarnExtraColumns, FinalRowCount 1])
   \<and> fst (run no_failures (Some spec_example) fresh_database) = 0
   \<and> students (db (snd (run no_failures (Some spec_example) fresh_database)))
       = Some [(Some ''AB'', Some ''R1'', Some ''X'')]"
  by code_simp

section \<open>The run, step by step\<close>

lemma connect_Inl: "connect e st = Inl oc \<Longrightarrow> fst oc = 1"
  by (auto simp: connect_def sys_exit_def Let_def split: if_splits)

lemma connect_Inr: "connect e st = Inr st' \<Longrightarrow> db st' = db st"
  by (auto simp: connect_def sys_exit_def Let_def split: if_splits)

lemma create_table_Inl: "create_table e st = Inl oc \<Longrightarrow> fst oc = 1"
  by (auto simp: create_table_def sys_exit_def Let_def split: if_splits prod.splits)

lemma create_table_Inr:
  assumes "create_table e st = Inr st'"
  shows "students (db st') = Some (case students (db st) of None \<Rightarrow> [] | Some s \<Rightarrow> s)"
proof -
  from assms have ok: "fst (cur_execute e CreateStudents (print CreatingTable st))"
    and st': "st' = print TableReady (snd (cur_execute e CreateStudents (print CreatingTable st)))"
    by (auto simp: create_table_def sys_exit_def Let_def split: if_splits prod.splits)
  from ok show ?thesis
    by (auto simp: st' cur_execute_ok cur_execute_db sql_def create_students_def split: option.splits)
qed

lemma create_temp_table_Inl: "create_temp_table e st = Inl oc \<Longrightarrow> fst oc = 1"
  by (auto simp: create_temp_table_def sys_exit_def Let_def split: if_splits prod.splits)

lemma create_temp_table_Inr:
  assumes "create_temp_table e st = Inr st'"
  shows "students (db st') = students (db st) \<and> temp_students (db st') = Some []"
proof -
  let ?p1 = "cur_execute e DropTempIfExists (print PreparingData st)"
  let ?p2 = "cur_execute e CreateTemp (snd ?p1)"
  from assms have ok: "fst ?p1" "fst ?p2" and st': "st' = print TempCreated (snd ?p2)"
    by (auto simp: create_temp_table_def sys_exit_def Let_def split: if_splits prod.splits)
  from ok show ?thesis
    by (auto simp: st' cur_execute_ok cur_execute_db sql_def drop_temp_if_exists_def
        create_temp_def split: option.splits)
qed

lemma bulk_copy_Inl: "bulk_copy e df st = Inl oc \<Longrightarrow> fst oc = 1"
  by (auto simp: bulk_copy_def sys_exit_def Let_def split: if_splits prod.splits)

lemma bulk_copy_Inr:
  assumes "bulk_copy e df st = Inr st'" and "temp_students (db st) = Some t"
  shows "\<exists>rs rs'. copy_decode e (to_csv False df) = Some rs \<and> store_rows rs = Some rs'
           \<and> temp_students (db st') = Some (t @ rs') \<and> students (db st') = students (db st)"
proof -
  let ?p = "cur_copy_from e (to_csv False df) (print StartingCopy (print Converting st))"
  from assms(1) have ok: "fst ?p" and st': "st' = print (LoadedTemp (length (rows df))) (snd ?p)"
    by (auto simp: bulk_copy_def sys_exit_def Let_def split: if_splits prod.splits)
  from ok assms(2) show ?thesis
    by (auto simp: st' cur_copy_from_ok cur_copy_from_db copy_from_def split: option.splits)
qed

lemma merge_staging_Inl: "merge_staging e st = Inl oc \<Longrightarrow> fst oc = 1"
  by (auto simp: merge_staging_def sys_exit_def Let_def split: if_splits prod.splits)

lemma merge_staging_Inr:
  assumes "merge_staging e st = Inr st'"
    and "students (db st) = Some s" and "temp_students (db st) = Some t"
  shows "distinct (map key_of t) \<and> students (db st') = Some (foldl upsert_row s t)"
proof -
  let ?p = "cur_execute e InsertOnConflict (print Moving st)"
  from assms(1) have ok: "fst ?p" and st': "st' = print Transferred (snd ?p)"
    by (auto simp: merge_staging_def sys_exit_def Let_def split: if_splits prod.splits)
  from ok assms(2,3) show ?thesis
    by (auto simp: st' cur_execute_ok cur_execute_db sql_def insert_on_conflict_def
        split: option.splits if_splits)
qed

lemma finish_students: "students (db (snd (finish e df st))) = students (db st)"
  by (auto simp: finish_def verify_count_simps cleanup_temp_simps cur_execute_db sql_def
      drop_temp_def split: option.splits)

lemma run_to_staging_Inl: "run_to_staging e csv d = Inl oc \<Longrightarrow> fst oc = 1"
  by (auto simp: run_to_staging_def split: sum.splits prod.splits
      dest: load_and_clean_Inl connect_Inl create_table_Inl create_temp_table_Inl)

lemma run_to_merge_Inl: "run_to_merge e csv d = Inl oc \<Longrightarrow> fst oc = 1"
  by (auto simp: run_to_merge_def split: sum.splits prod.splits
      dest: run_to_staging_Inl bulk_copy_Inl merge_staging_Inl)

lemma run_to_staging_Inr:
  assumes "run_to_staging e csv d = Inr (df, st)"
  shows "students (db st) = Some (case students d of None \<Rightarrow> [] | Some s \<Rightarrow> s)
         \<and> temp_students (db st) = Some []"
proof -
  from assms obtain st0 st1 st2 where
    l: "load_and_clean csv (initial_state d) = Inr (df, st0)" and c: "connect e st0 = Inr st1"
    and t: "create_table e st1 = Inr st2" and s: "create_temp_table e st2 = Inr st"
    by (auto simp: run_to_staging_def split: sum.splits prod.splits)
  from load_and_clean_Inr [OF l] connect_Inr [OF c] have "db st1 = d"
    by (simp add: initial_state_def)
  with create_table_Inr [OF t] create_temp_table_Inr [OF s] show ?thesis by simp
qed

text \<open>A run that exits with status 0 has staged the decoded rows and merged them.\<close>

lemma run_success:
  assumes "run e csv d = (0, st)"
  shows "\<exists>df st0 rs t. load_and_clean csv (initial_state d) = Inr (df, st0)
           \<and> copy_decode e (to_csv False df) = Some rs \<and> store_rows rs = Some t
           \<and> distinct (map key_of t)
           \<and> students (db st) =
               Some (foldl upsert_row (case students d of None \<Rightarrow> [] | Some s \<Rightarrow> s) t)"
proof -
  from assms obtain df st5 where m: "run_to_merge e csv d = Inr (df, st5)"
    and st: "st = snd (finish e df st5)"
    by (cases "run_to_merge e csv d") (auto simp: run_def dest: run_to_merge_Inl)
  from m obtain st3 st4 where s: "run_to_staging e csv d = Inr (df, st3)"
    and c: "bulk_copy e df st3 = Inr st4" and g: "merge_staging e st4 = Inr st5"
    by (auto simp: run_to_merge_def split: sum.splits prod.splits)
  note s3 = run_to_staging_Inr [OF s]
  from s3 have t3: "temp_students (db st3) = Some []" by simp
  from bulk_copy_Inr [OF c t3] obtain rs t where
    rs: "copy_decode e (to_csv False df) = Some rs" "store_rows rs = Some t"
    and t4: "temp_students (db st4) = Some t" "students (db st4) = students (db st3)"
    by auto
  from s3 t4 have s4: "students (db st4) = Some (case students d of None \<Rightarrow> [] | Some s \<Rightarrow> s)"
    by simp
  from merge_staging_Inr [OF g s4 t4(1)] run_to_staging_cleaned [OF s] rs st
  show ?thesis
    by (auto simp: finish_students)
qed


section \<open>Merging the same rows again\<close>

text \<open>Merging the same staged rows a second time changes nothing.\<close>

lemma upsert_row_only:
  "\<forall>x\<in>set (upsert_row s r). key_of x = key_of r \<longrightarrow> x = r"
proof (cases "key_of r \<in> set (map key_of s)")
  case True
  then show ?thesis
    by (auto simp: upsert_row_def key_of_def name_of_def branch_of_def)
next
  case False
  then have "\<forall>x\<in>set s. key_of x \<noteq> key_of r"
    by (metis imageI set_map)
  with False show ?thesis
    by (auto simp: upsert_row_def)
qed

lemma upsert_row_keeps_only:
  assumes "\<forall>x\<in>set s. key_of x = key_of a \<longrightarrow> x = a" and "key_of r \<noteq> key_of a"
  shows "\<forall>x\<in>set (upsert_row s r). key_of x = key_of a \<longrightarrow> x = a"
  using assms by (auto simp: upsert_row_def key_of_def)

lemma foldl_upsert_keeps_only:
  assumes "\<forall>x\<in>set s. key_of x = key_of a \<longrightarrow> x = a" and "key_of a \<notin> set (map key_of t)"
  shows "\<forall>x\<in>set (foldl upsert_row s t). key_of x = key_of a \<longrightarrow> x = a"
  using assms
proof (induction t arbitrary: s)
  case Nil
  then show ?case by simp
next
  case (Cons r t)
  from Cons.prems have "key_of r \<noteq> key_of a" by auto
  from upsert_row_keeps_only [OF Cons.prems(1) this] Cons.prems(2) Cons.IH [of "upsert_row s r"]
  show ?case by simp
qed

lemma foldl_upsert_only:
  assumes "distinct (map key_of t)" and "r \<in> set t"
  shows "\<forall>x\<in>set (foldl upsert_row s t). key_of x = key_of r \<longrightarrow> x = r"
  using assms
proof (induction t arbitrary: s)
  case Nil
  then show ?case by simp
next
  case (Cons a t)
  show ?case
  proof (cases "r = a")
    case True
    from Cons.prems(1) have "key_of a \<notin> set (map key_of t)" by simp
    from foldl_upsert_keeps_only [OF upsert_row_only [of s a] this] True
    show ?thesis by simp
  next
    case False
    with Cons.prems have "distinct (map key_of t)" "r \<in> set t" by simp_all
    from Cons.IH [OF this, of "upsert_row s a"] show ?thesis by simp
  qed
qed

lemma upsert_row_again:
  assumes "r \<in> set s" and "\<forall>x\<in>set s. key_of x = key_of r \<longrightarrow> x = r"
  shows "upsert_row s r = s"
proof -
  from assms(1) have "key_of r \<in> set (map key_of s)" by simp
  moreover have "map (\<lambda>x. if key_of x = key_of r then (name_of r, key_of x, branch_of r) else x) s = s"
  proof (rule map_idI)
    fix x assume "x \<in> set s"
    with assms(2) show "(if key_of x = key_of r then (name_of r, key_of x, branch_of r) else x) = x"
      by (auto simp: key_of_def name_of_def branch_of_def)
  qed
  ultimately show ?thesis by (simp add: upsert_row_def)
qed

lemma foldl_fixed: "(\<forall>r\<in>set t. f s r = s) \<Longrightarrow> foldl f s t = s"
  by (induction t) simp_all

lemma foldl_upsert_twice:
  assumes "distinct (map key_of t)"
  shows "foldl upsert_row (foldl upsert_row s t) t = foldl upsert_row s t"
proof (rule foldl_fixed, rule ballI)
  fix r assume r: "r \<in> set t"
  from foldl_upsert_staged [OF assms r] foldl_upsert_only [OF assms r]
  show "upsert_row (foldl upsert_row s t) r = foldl upsert_row s t"
    by (rule upsert_row_again)
qed

lemma foldl_upsert_fresh:
  assumes "distinct (map key_of s @ map key_of t)"
  shows "foldl upsert_row s t = s @ t"
  using assms
proof (induction t arbitrary: s)
  case Nil
  show ?case by simp
next
  case (Cons r t)
  from Cons.prems have new: "key_of r \<notin> set (map key_of s)" by auto
  then have u: "upsert_row s r = s @ [r]" by (simp add: upsert_row_def)
  from Cons.prems have "distinct (map key_of (s @ [r]) @ map key_of t)" by auto
  from Cons.IH [OF this] u show ?case by simp
qed


section \<open>The copy of plain text\<close>

lemma split_on_none: "ch \<notin> set l \<Longrightarrow> split_on ch l = [l]"
  by (induction l) auto

lemma split_on_append: "ch \<notin> set l \<Longrightarrow> split_on ch (l @ ch # rest) = l # split_on ch rest"
  by (induction l) auto

lemma split_on_lines:
  "list_all (\<lambda>l. newline \<notin> set l) ls \<Longrightarrow>
   split_on newline (concat (map (\<lambda>l. l @ [newline]) ls)) = ls @ [[]]"
  by (induction ls) (simp_all add: split_on_append)

lemma copy_lines_lines:
  assumes "list_all (\<lambda>l. newline \<notin> set l) ls"
  shows "copy_lines (concat (map (\<lambda>l. l @ [newline]) ls)) = ls"
  by (simp add: copy_lines_def split_on_lines [OF assms])

lemma plain_text_iff:
  "plain_text s \<longleftrightarrow> comma \<notin> set s \<and> dquote \<notin> set s \<and> newline \<notin> set s
     \<and> carriage_return \<notin> set s \<and> backslash \<notin> set s"
  by (auto simp: plain_text_def list_ex_iff)

lemma csv_field_plain: "plain_text s \<Longrightarrow> csv_field s = s"
  by (auto simp: csv_field_def needs_quoting_def lineterminator_def plain_text_iff list_ex_iff)

lemma csv_line_plain:
  assumes "plain_text a" "plain_text b" "plain_text c"
  shows "csv_line [a, b, c] = (a @ comma # b @ comma # c) @ [newline]"
  using assms by (simp add: csv_line_def csv_field_plain lineterminator_def)

lemma copy_line_plain:
  assumes "plain_text a" "plain_text b" "plain_text c"
  shows "copy_line (a @ comma # b @ comma # c) = Some (Some a, Some b, Some c)"
  using assms
  by (simp add: copy_line_def plain_text_iff split_on_append split_on_none)

lemma plain_row_cases:
  assumes "length r = 3 \<and> list_all (\<lambda>c. plain_text (cell_text c)) r"
  obtains x y z where "r = [x, y, z]" "plain_text (cell_text x)" "plain_text (cell_text y)"
    "plain_text (cell_text z)"
proof -
  from assms obtain x y z where "r = [x, y, z]"
    by (auto simp: numeral_3_eq_3 length_Suc_conv)
  with assms that show ?thesis by simp
qed

lemma plain_row_line:
  assumes "length r = 3 \<and> list_all (\<lambda>c. plain_text (cell_text c)) r"
  shows "csv_line (map cell_text r) = text_line r @ [newline]"
    and "copy_line (text_line r) = Some (positional_row r)"
    and "newline \<notin> set (text_line r)"
    and "backslash \<notin> set (text_line r)" and "carriage_return \<notin> set (text_line r)"
proof -
  from assms obtain x y z where r: "r = [x, y, z]" and p: "plain_text (cell_text x)"
    "plain_text (cell_text y)" "plain_text (cell_text z)"
    by (rule plain_row_cases)
  show "csv_line (map cell_text r) = text_line r @ [newline]"
    using csv_line_plain [OF p] by (simp add: r text_line_def)
  show "copy_line (text_line r) = Some (positional_row r)"
    using copy_line_plain [OF p] by (simp add: r text_line_def positional_row_def)
  show "newline \<notin> set (text_line r)" "backslash \<notin> set (text_line r)"
    "carriage_return \<notin> set (text_line r)"
    using p by (simp_all add: r text_line_def plain_text_iff)
qed

lemma copy_text_plain:
  "plain_rows rs \<Longrightarrow> copy_text (map text_line rs) = Some (map positional_row rs)"
  by (induction rs) (simp_all add: plain_rows_def plain_row_line)

lemma to_csv_plain:
  assumes "plain_rows (rows df)"
  shows "to_csv False df = concat (map (\<lambda>l. l @ [newline]) (map text_line (rows df)))"
proof -
  have "map (\<lambda>r. csv_line (map cell_text r)) (rows df) = map (\<lambda>r. text_line r @ [newline]) (rows df)"
    using assms by (intro map_cong) (auto simp: plain_rows_def list_all_iff plain_row_line)
  then have "concat (map (\<lambda>r. csv_line (map cell_text r)) (rows df))
             = concat (map (\<lambda>r. text_line r @ [newline]) (rows df))"
    by (rule arg_cong)
  then show ?thesis by (simp add: to_csv_def comp_def)
qed

text \<open>
  Rows of three plain cells pass through \<^verbatim>\<open>to_csv\<close> and the copy unchanged: the rows
  decoded are the rows written, position by position.
\<close>

lemma copy_round_trip:
  assumes "plain_rows (rows df)"
  shows "copy_decode e (to_csv False df) =
         (if list_ex (\<lambda>c. c = CHR 0x00) (to_csv False df) then None
          else Some (map positional_row (rows df)))"
proof -
  let ?ls = "map text_line (rows df)"
  from assms have nl: "list_all (\<lambda>l. newline \<notin> set l) ?ls"
    by (auto simp: plain_rows_def list_all_iff plain_row_line)
  from assms have "\<forall>l\<in>set ?ls. backslash \<notin> set l \<and> carriage_return \<notin> set l"
    by (auto simp: plain_rows_def list_all_iff plain_row_line)
  then have "\<not> list_ex (\<lambda>c. c = backslash \<or> c = carriage_return)
                (concat (map (\<lambda>l. l @ [newline]) ?ls))"
    by (auto simp: list_ex_iff)
  then show ?thesis
    using copy_lines_lines [OF nl] copy_text_plain [OF assms]
    by (simp add: copy_decode_def to_csv_plain [OF assms])
qed


section \<open>The shape of the cleaned data\<close>

lemma remove_duplicates_distinct:
  "distinct (getitem (fst (remove_duplicates df st)) ''uni_roll'')"
proof -
  define k where "k = (\<lambda>r. cell_of df r ''uni_roll'')"
  define dups where
    "dups = map fst (filter snd (zip (rows df) (duplicated_from [] (map k (rows df)))))"
  define kept where
    "kept = map fst (filter snd (zip (rows df) (map Not (duplicated_from [] (map k (rows df))))))"
  have keys: "getitem df ''uni_roll'' = map k (rows df)"
    by (simp add: getitem_def k_def)
  have rd: "fst (remove_duplicates df st) = (if dups \<noteq> [] then df\<lparr>rows := kept\<rparr> else df)"
    by (simp add: remove_duplicates_def drop_duplicates_def getitem_mask_def duplicated_def
        Let_def keys dups_def kept_def)
  show ?thesis
  proof (cases "dups = []")
    case True
    with no_duplicates_iff [of "rows df" "[]" k] have "distinct (map k (rows df))"
      by (simp add: dups_def)
    with True rd keys show ?thesis by simp
  next
    case False
    have "getitem (df\<lparr>rows := kept\<rparr>) ''uni_roll'' = map k kept"
      by (simp add: getitem_def k_def cell_of_def)
    moreover have "distinct (map k kept)"
      unfolding kept_def by (rule kept_distinct)
    ultimately show ?thesis using False rd by simp
  qed
qed

lemma store_rows_length: "store_rows rs = Some t \<Longrightarrow> length t = length rs"
  by (induction rs arbitrary: t) (auto split: option.splits)

lemma load_and_clean_parts:
  assumes "load_and_clean (Some df0) st = Inr (df, st')"
  obtains df1 st1 st2 where
    "validate_columns df0 (print (Loaded (length (rows df0))) (print LoadingCsv st)) = Inr (df1, st1)"
    and "remove_duplicates (clean_data df1) st1 = (df, st2)"
proof -
  let ?st1 = "print (Loaded (length (rows df0))) (print LoadingCsv st)"
  from assms obtain df1 st1 where v: "validate_columns df0 ?st1 = Inr (df1, st1)"
    by (cases "validate_columns df0 ?st1") (auto simp: load_and_clean_def load_csv_def Let_def)
  from assms v have "remove_duplicates (clean_data df1) st1
      = (df, snd (remove_duplicates (clean_data df1) st1))"
    by (auto simp: load_and_clean_def load_csv_def Let_def split: prod.splits)
  with v that show ?thesis by blast
qed

lemma three_columns:
  assumes "validate_columns df st = Inr (df1, st1)"
  shows "length (columns df1) = 3"
proof (cases "length (columns df) > 3")
  case True
  with assms show ?thesis
    by (auto simp: validate_columns_def sys_exit_def getitem_list_def expected_columns_def
        split: if_splits)
next
  case False
  from validate_columns_result(1) [OF assms]
  have "set expected_columns \<subseteq> set (columns df)"
    by (auto simp: list_all_iff)
  then have "card (set expected_columns) \<le> card (set (columns df))"
    by (intro card_mono) simp_all
  moreover have "card (set expected_columns) = 3"
    by (simp add: expected_columns_def)
  moreover have "card (set (columns df)) \<le> length (columns df)"
    by (rule card_length)
  ultimately have "length (columns df) = 3" using False by simp
  with False validate_columns_result(4) [OF assms] show ?thesis by simp
qed

lemma clean_row_no_separator:
  assumes "list_all (\<lambda>c. c \<in> set (columns df)) expected_columns"
    and "length (columns df) = 3" and "length r = 3" and "x \<in> set (clean_row df r)"
  shows "comma \<notin> set (cell_text x) \<and> dquote \<notin> set (cell_text x)"
proof -
  from assms(1) have n: "''name'' \<in> set (columns df)" and u: "''uni_roll'' \<in> set (columns df)"
    and b: "''branch'' \<in> set (columns df)"
    by (simp_all add: expected_present)
  let ?i = "get_loc (columns df) ''name''"
  let ?j = "get_loc (columns df) ''uni_roll''"
  let ?k = "get_loc (columns df) ''branch''"
  have ij: "?i \<noteq> ?j" using get_loc_inject [OF n u] by auto
  have ik: "?i \<noteq> ?k" using get_loc_inject [OF n b] by auto
  have jk: "?j \<noteq> ?k" using get_loc_inject [OF u b] by auto
  have lt: "?i < 3" "?j < 3" "?k < 3"
    using get_loc_less [OF n] get_loc_less [OF u] get_loc_less [OF b] assms(2) by simp_all
  from assms(4) obtain p where p: "p < 3" "x = clean_row df r ! p"
    by (auto simp: in_set_conv_nth clean_row_def assms(3))
  from p(1) ij ik jk lt have "p = ?i \<or> p = ?j \<or> p = ?k" by arith
  then have "x = Val (take 255 (stripped (cell_of df r ''name'')))
             \<or> x = Val (take 100 (stripped (cell_of df r ''uni_roll'')))
             \<or> x = Val (take 50 (stripped (cell_of df r ''branch'')))"
    using p lt ij ik jk assms(3) by (auto simp: clean_row_def)
  then show ?thesis
    by (auto simp: cell_text_def stripped_def dest!: in_set_takeD)
qed

text \<open>
  The cleaned data of a well-formed input: three cells to a row, none of them with a comma
  or a double quote, and no \<open>uni_roll\<close> twice.
\<close>

lemma cleaned_shape:
  assumes "wf_frame df0" and "load_and_clean (Some df0) st = Inr (df, st')"
  shows "list_all (\<lambda>r. length r = 3 \<and>
            list_all (\<lambda>c. comma \<notin> set (cell_text c) \<and> dquote \<notin> set (cell_text c)) r) (rows df)"
    and "distinct (getitem df ''uni_roll'')"
proof -
  from assms(2) obtain df1 st1 st2 where
    v: "validate_columns df0 (print (Loaded (length (rows df0))) (print LoadingCsv st)) = Inr (df1, st1)"
    and rd: "remove_duplicates (clean_data df1) st1 = (df, st2)"
    by (rule load_and_clean_parts)
  note vr = validate_columns_result [OF v]
  from vr(5) assms(1) have wf1: "wf_frame df1" by simp
  have c3: "length (columns df1) = 3" by (rule three_columns [OF v])
  have cd: "rows (clean_data df1) = map (clean_row df1) (rows df1)"
    by (simp add: clean_data_rows [OF wf1 vr(2)])
  from remove_duplicates_subset [of "clean_data df1" st1] rd
  have sub: "set (rows df) \<subseteq> set (rows (clean_data df1))" by simp
  show "list_all (\<lambda>r. length r = 3 \<and>
            list_all (\<lambda>c. comma \<notin> set (cell_text c) \<and> dquote \<notin> set (cell_text c)) r) (rows df)"
    unfolding list_all_iff
  proof (intro ballI conjI)
    fix r' assume "r' \<in> set (rows df)"
    with sub cd obtain r where r: "r \<in> set (rows df1)" "r' = clean_row df1 r" by auto
    from wf_frame_row [OF wf1 r(1)] c3 have l: "length r = 3" by simp
    then show "length r' = 3" by (simp add: r(2) clean_row_def)
    fix x assume "x \<in> set r'"
    with clean_row_no_separator [OF vr(2) c3 l] r(2)
    show "comma \<notin> set (cell_text x)" "dquote \<notin> set (cell_text x)" by simp_all
  qed
  from remove_duplicates_distinct [of "clean_data df1" st1] rd
  show "distinct (getitem df ''uni_roll'')" by simp
qed

lemma cleaned_plain:
  assumes "wf_frame df0" and "load_and_clean (Some df0) st = Inr (df, st')" and "no_control df"
  shows "plain_rows (rows df)"
  using cleaned_shape(1) [OF assms(1,2)] assms(3)
  unfolding plain_rows_def no_control_def list_all_iff plain_text_iff list_ex_iff
  by blast


lemma validate_columns_frame:
  assumes "validate_columns df st = Inr (df1, st1)" and "validate_columns df sta = Inr (df2, sta1)"
  shows "df2 = df1"
  using assms by (auto simp: validate_columns_def sys_exit_def split: if_splits)

lemma remove_duplicates_frame:
  "fst (remove_duplicates df sta) = fst (remove_duplicates df st)"
  by (simp add: remove_duplicates_def Let_def)

lemma load_and_clean_frame:
  assumes "load_and_clean (Some df0) st = Inr (df, st')"
    and "load_and_clean (Some df0) sta = Inr (df2, sta')"
  shows "df2 = df"
proof -
  from assms(1) obtain df1 st1 st2 where
    v: "validate_columns df0 (print (Loaded (length (rows df0))) (print LoadingCsv st)) = Inr (df1, st1)"
    and rd: "remove_duplicates (clean_data df1) st1 = (df, st2)"
    by (rule load_and_clean_parts)
  from assms(2) obtain df1a st1a st2a where
    va: "validate_columns df0 (print (Loaded (length (rows df0))) (print LoadingCsv sta)) = Inr (df1a, st1a)"
    and rda: "remove_duplicates (clean_data df1a) st1a = (df2, st2a)"
    by (rule load_and_clean_parts)
  from validate_columns_frame [OF v va] have "df1a = df1" .
  with rd rda remove_duplicates_frame [of "clean_data df1" st1a st1] show ?thesis
    by simp
qed

lemma copy_decode_env:
  "copy_escaped e2 = copy_escaped e1 \<Longrightarrow> copy_decode e2 buf = copy_decode e1 buf"
  by (simp add: copy_decode_def)

section \<open>Loading the same file twice\<close>

text \<open>
  C3 (as amended). When two runs on the same input both exit with status 0, the second
  on the database the first has left, the second leaves the permanent table exactly as
  the first left it: it overwrites and adds no row. When moreover the input is
  well-formed, the permanent table was absent or empty before the first run, and no
  cleaned field holds a newline, a carriage return or a backslash, the number of rows in
  the table after the second run is the number of distinct \<open>uni_roll\<close> values of the
  cleaned data.
\<close>

theorem second_load_overwrites:
  assumes "run e1 (Some df0) d = (0, st1)" and "run e2 (Some df0) (db st1) = (0, st2)"
    and "copy_escaped e2 = copy_escaped e1"
  shows "students (db st2) = students (db st1)
         \<and> (wf_frame df0 \<and> (students d = None \<or> students d = Some [])
              \<and> load_and_clean (Some df0) (initial_state d) = Inr (df, st0) \<and> no_control df
            \<longrightarrow> select_count (db st2) = Some (card (set (getitem df ''uni_roll''))))"
proof -
  let ?s0 = "case students d of None \<Rightarrow> [] | Some s \<Rightarrow> s"
  from run_success [OF assms(1)] obtain dfa sta rs t where
    a: "load_and_clean (Some df0) (initial_state d) = Inr (dfa, sta)"
    "copy_decode e1 (to_csv False dfa) = Some rs" "store_rows rs = Some t"
    "distinct (map key_of t)" "students (db st1) = Some (foldl upsert_row ?s0 t)"
    by blast
  from run_success [OF assms(2)] obtain dfb stb rs' t' where
    b: "load_and_clean (Some df0) (initial_state (db st1)) = Inr (dfb, stb)"
    "copy_decode e2 (to_csv False dfb) = Some rs'" "store_rows rs' = Some t'"
    "students (db st2) =
       Some (foldl upsert_row (case students (db st1) of None \<Rightarrow> [] | Some s \<Rightarrow> s) t')"
    by blast
  from load_and_clean_frame [OF a(1) b(1)] have "dfb = dfa" .
  with a(2,3) b(2,3) copy_decode_env [OF assms(3)] have "t' = t" by simp
  with a(4,5) b(4) have same: "students (db st2) = students (db st1)"
    by (simp add: foldl_upsert_twice)
  have "select_count (db st2) = Some (card (set (getitem df ''uni_roll'')))"
    if wf: "wf_frame df0" and fresh: "students d = None \<or> students d = Some []"
      and l: "load_and_clean (Some df0) (initial_state d) = Inr (df, st0)" and nc: "no_control df"
  proof -
    from l a(1) have dfa: "dfa = df" by simp
    from fresh have "?s0 = []" by auto
    with a(4,5) foldl_upsert_fresh [of "[]" t] same
    have st2: "students (db st2) = Some t" by simp
    from copy_round_trip [OF cleaned_plain [OF wf l nc], of e1] a(2) dfa
    have "rs = map positional_row (rows df)" by (simp split: if_splits)
    with store_rows_length [OF a(3)] have len: "length t = length (rows df)" by simp
    from cleaned_shape(2) [OF wf l] have "card (set (getitem df ''uni_roll'')) = length (getitem df ''uni_roll'')"
      by (rule distinct_card)
    with len st2 show ?thesis
      by (simp add: select_count_def getitem_def)
  qed
  with same show ?thesis by blast
qed

theorem second_load_overwrites_witness:
  "fst (run no_failures (Some with_duplicates) fresh_database) = 0
   \<and> fst (run drop_breaks (Some with_duplicates)
            (db (snd (run no_failures (Some with_duplicates) fresh_database)))) = 0
   \<and> copy_escaped drop_breaks = copy_escaped no_failures
   \<and> wf_frame with_duplicates
   \<and> students fresh_database = None
   \<and> students (db (snd (run drop_breaks (Some with_duplicates)
            (db (snd (run no_failures (Some with_duplicates) fresh_database))))))
       = students (db (snd (run no_failures (Some with_duplicates) fresh_database)))
   \<and> select_count (db (snd (run drop_breaks (Some with_duplicates)
            (db (snd (run no_failures (Some with_duplicates) fresh_database)))))) = Some 2"
proof -
  let ?r1 = "run no_failures (Some with_duplicates) fresh_database"
  let ?r2 = "run drop_breaks (Some with_duplicates) (db (snd ?r1))"
  have f1: "fst ?r1 = 0" by code_simp
  have f2: "fst ?r2 = 0" by code_simp
  have r1: "?r1 = (0, snd ?r1)" using f1 by (metis prod.collapse)
  have r2: "?r2 = (0, snd ?r2)" using f2 by (metis prod.collapse)
  have ce: "copy_escaped drop_breaks = copy_escaped no_failures"
    by (simp add: drop_breaks_def no_failures_def)
  have wf: "wf_frame with_duplicates"
    by (simp add: wf_frame_def with_duplicates_def)
  have fr: "students fresh_database = None"
    by (simp add: fresh_database_def)
  have "case load_and_clean (Some with_duplicates) (initial_state fresh_database) of
          Inl oc \<Rightarrow> False
        | Inr p \<Rightarrow> no_control (fst p) \<and> card (set (getitem (fst p) ''uni_roll'')) = 2"
    by code_simp
  then obtain df st0 where
    l: "load_and_clean (Some with_duplicates) (initial_state fresh_database) = Inr (df, st0)"
    and nc: "no_control df" and c: "card (set (getitem df ''uni_roll'')) = 2"
    by (auto split: sum.splits)
  from second_load_overwrites [OF r1 r2 ce, of df st0] f1 f2 ce wf fr l nc c
  show ?thesis by simp
qed

text \<open>
  The claim as first stated fails on a table that already holds a student of another
  load: both runs succeed, the cleaned data has two \<open>uni_roll\<close> values, and the table
  ends with three rows.
\<close>

theorem second_load_count_counterexample:
  "fst (run no_failures (Some two_students) one_old_row) = 0
   \<and> fst (run no_failures (Some two_students)
            (db (snd (run no_failures (Some two_students) one_old_row)))) = 0
   \<and> select_count (db (snd (run no_failures (Some two_students)
            (db (snd (run no_failures (Some two_students) one_old_row)))))) = Some 3
   \<and> (case load_and_clean (Some two_students) (initial_state one_old_row) of
         Inl oc \<Rightarrow> False
       | Inr p \<Rightarrow> card (set (getitem (fst p) ''uni_roll'')) = 2)"
  by code_simp


section \<open>What the copy does to the cleaned rows\<close>

text \<open>
  C10. Two inputs on which the copy does not store the cleaned rows as they are. The
  three columns of \<open>reordered_columns\<close> are not put in the expected order (line 34 runs
  for a file with extra columns only), the buffer is written in the file's order and the
  copy assigns it to (name, \<open>uni_roll\<close>, branch): the run succeeds and stores R1 as the
  name and Alice as the \<open>uni_roll\<close>. The name of \<open>multiline_name\<close> holds a newline, so
  the writer quotes it, the copy reads a line with one field, and the run exits with
  status 1 with nothing stored.
\<close>

theorem copy_is_not_the_identity:
  "(case load_and_clean (Some reordered_columns) (initial_state fresh_database) of
      Inl oc \<Rightarrow> False
    | Inr p \<Rightarrow>
        getitem (fst p) ''name'' = [Val ''Alice''] \<and> getitem (fst p) ''uni_roll'' = [Val ''R1'']
        \<and> to_csv False (fst p) = ''R1,Alice,CSE'' @ [newline])
   \<and> fst (run no_failures (Some reordered_columns) fresh_database) = 0
   \<and> students (db (snd (run no_failures (Some reordered_columns) fresh_database)))
       = Some [(Some ''R1'', Some ''Alice'', Some ''CSE'')]
   \<and> (case load_and_clean (Some multiline_name) (initial_state fresh_database) of
        Inl oc \<Rightarrow> False
      | Inr p \<Rightarrow>
          to_csv False (fst p)
            = dquote # ''Al'' @ newline # ''ice'' @ dquote # '',R1,CSE'' @ [newline])
   \<and> fst (run no_failures (Some multiline_name) fresh_database) = 1
   \<and> students (db (snd (run no_failures (Some multiline_name) fresh_database))) = Some []"
  by code_simp

section \<open>From the cleaned data to the table\<close>







section \<open>Truncation\<close>



section \<open>Reading the recovery file back\<close>


lemma start_field_mode: "start_field esc (rd\<lparr>mode := m\<rparr>) c = start_field esc rd c"
  by (simp add: start_field_def end_line_def end_field_def push_char_def)



















section \<open>The recovery file\<close>



section \<open>Truncation and the order of the columns\<close>


end
